theory Spec2Isabelle
  imports Complex_Main
begin

section \<open>Python values, errors and loops\<close>

text \<open>
  The module \<^verbatim>\<open>geomdl/BSpline.py\<close> is embedded function by function. Python floats
  are idealised as exact reals (type \<open>real\<close>), Python integers are \<open>int\<close>, a point is
  the list of its coordinates. Every \<^verbatim>\<open>raise\<close>, every failing list access and every
  read of an unassigned local variable is a value \<open>Inl e\<close> of the result type.
  The one value of \<open>error\<close> that is no Python exception is \<open>NoneCell\<close>: knot insertion
  fills arrays created as \<^verbatim>\<open>[None, ...]\<close> and stores them; the state types below hold
  numbers only, so an array that still holds a \<^verbatim>\<open>None\<close> when it is stored ends the
  model with \<open>NoneCell\<close>.
\<close>

datatype error =
  ValueError | IndexError | ZeroDivisionError | UnboundLocalError | TypeError | NoneCell

datatype warning = CannotInsertU int | CannotInsertV int | CannotInsert int

type_synonym point = "real list"

definition ebind :: "error + 'a \<Rightarrow> ('a \<Rightarrow> error + 'b) \<Rightarrow> error + 'b" where
  "ebind m f = (case m of Inl e \<Rightarrow> Inl e | Inr x \<Rightarrow> f x)"

text \<open>
  The position that the index \<open>i\<close> denotes in a list of \<open>n\<close> elements: \<open>-n, ..., -1\<close>
  count from the end, anything outside \<open>-n, ..., n - 1\<close> denotes no element.
\<close>

definition py_index :: "nat \<Rightarrow> int \<Rightarrow> nat option" where
  "py_index n i =
     (if 0 \<le> i \<and> i < int n then Some (nat i)
      else if - int n \<le> i \<and> i < 0 then Some (nat (int n + i))
      else None)"

text \<open>\<^verbatim>\<open>xs[i]\<close> and \<^verbatim>\<open>xs[i] = v\<close>; both raise when the index denotes no element.\<close>

definition py_get :: "'a list \<Rightarrow> int \<Rightarrow> error + 'a" where
  "py_get xs i =
     (case py_index (length xs) i of None \<Rightarrow> Inl IndexError | Some j \<Rightarrow> Inr (xs ! j))"

definition py_set :: "'a list \<Rightarrow> int \<Rightarrow> 'a \<Rightarrow> error + 'a list" where
  "py_set xs i v =
     (case py_index (length xs) i of None \<Rightarrow> Inl IndexError | Some j \<Rightarrow> Inr (xs[j := v]))"

text \<open>\<^verbatim>\<open>grid[i][j]\<close> and \<^verbatim>\<open>grid[i][j] = v\<close>.\<close>

definition py_get2 :: "'a list list \<Rightarrow> int \<Rightarrow> int \<Rightarrow> error + 'a" where
  "py_get2 g i j = ebind (py_get g i) (\<lambda>row. py_get row j)"

definition py_set2 :: "'a list list \<Rightarrow> int \<Rightarrow> int \<Rightarrow> 'a \<Rightarrow> error + 'a list list" where
  "py_set2 g i j v =
     ebind (py_get g i) (\<lambda>row. ebind (py_set row j v) (\<lambda>row'. py_set g i row'))"

text \<open>\<^verbatim>\<open>range(a, b)\<close>.\<close>

definition py_range :: "int \<Rightarrow> int \<Rightarrow> int list" where
  "py_range a b = [a..b - 1]"

text \<open>A \<^verbatim>\<open>for\<close> loop over a list of values; an exception in the body ends the loop.\<close>

fun for_loop :: "'i list \<Rightarrow> ('i \<Rightarrow> 's \<Rightarrow> error + 's) \<Rightarrow> 's \<Rightarrow> error + 's" where
  "for_loop [] body s = Inr s"
| "for_loop (i # is) body s = ebind (body i s) (for_loop is body)"

text \<open>Float division: a zero divisor raises \<^verbatim>\<open>ZeroDivisionError\<close>.\<close>

definition py_div :: "real \<Rightarrow> real \<Rightarrow> error + real" where
  "py_div a b = (if b = 0 then Inl ZeroDivisionError else Inr (a / b))"

section \<open>The module \<^verbatim>\<open>geomdl.utilities\<close>\<close>

text \<open>
  Modelled from the spec: \<^verbatim>\<open>utilities.check_uv\<close> is not among the sources. The
  specification says that a parameter \<open>u\<close> or \<open>v\<close> outside \<open>[0,1]\<close> fails immediately,
  and that the parameters of a surface insertion are optional; a parameter that is not
  supplied (\<^verbatim>\<open>None\<close>) is not checked.
\<close>

definition check_uv :: "real option \<Rightarrow> real option \<Rightarrow> error + unit" where
  "check_uv u v =
     (if (case u of None \<Rightarrow> False | Some x \<Rightarrow> x < 0 \<or> 1 < x) then Inl ValueError
      else if (case v of None \<Rightarrow> False | Some y \<Rightarrow> y < 0 \<or> 1 < y) then Inl ValueError
      else Inr ())"

text \<open>
  Modelled from the spec: \<^verbatim>\<open>utilities.find_multiplicity\<close> is not among the sources.
  The specification: the count of occurrences of \<open>u\<close> in the knot vector, within floating
  tolerance; over exact reals the tolerance is equality.
\<close>

definition find_multiplicity :: "real \<Rightarrow> real list \<Rightarrow> int" where
  "find_multiplicity u kv = int (length (filter (\<lambda>k. k = u) kv))"

text \<open>
  Modelled from the spec: \<^verbatim>\<open>utilities.find_span\<close> is not among the sources. The
  specification: the index \<open>k\<close> with \<open>values[k] \<le> u < values[k+1]\<close>, where \<open>u = 1.0\<close> is
  special-cased to the span below the upper boundary (index \<open>n_ctrlpts - 1\<close>, as in
  Algorithm A2.1), found by a search over the candidate spans, for which a linear scan
  is acceptable. The candidate spans are \<open>degree, ..., n_ctrlpts - 1\<close>. The specification
  does not say what happens when no candidate fits; the scan then runs off its range.
\<close>

fun span_scan :: "real list \<Rightarrow> real \<Rightarrow> int list \<Rightarrow> error + int" where
  "span_scan kv u [] = Inl IndexError"
| "span_scan kv u (k # ks) =
     ebind (py_get kv k) (\<lambda>a. ebind (py_get kv (k + 1)) (\<lambda>b.
       if a \<le> u \<and> u < b then Inr k else span_scan kv u ks))"

definition find_span :: "int \<Rightarrow> real list \<Rightarrow> int \<Rightarrow> real \<Rightarrow> error + int" where
  "find_span deg kv num_ctrlpts u =
     (if u = 1 then Inr (num_ctrlpts - 1)
      else span_scan kv u (py_range deg num_ctrlpts))"

text \<open>
  Modelled from the spec: \<^verbatim>\<open>utilities.basis_functions\<close> is not among the sources. The
  specification names Algorithm A2.2 of the NURBS book (the Cox--de Boor recurrence
  giving the \<open>degree + 1\<close> nonzero basis values at \<open>u\<close>):
  \<^verbatim>\<open>
  N[0] = 1.0
  for j in 1..p:
      left[j] = u - U[span+1-j];  right[j] = U[span+j] - u;  saved = 0.0
      for r in 0..j-1:
          temp = N[r] / (right[r+1] + left[j-r])
          N[r] = saved + right[r+1] * temp
          saved = left[j-r] * temp
      N[j] = saved
  \<close>
  \<open>basis_row\<close> is the inner loop over \<open>r\<close> followed by \<^verbatim>\<open>N[j] = saved\<close>; it walks the
  values \<open>N[r], N[r+1], ...\<close> not yet replaced. The arrays \<open>left\<close> and \<open>right\<close> grow by one
  entry in each round of the outer loop (entry \<open>0\<close> is not used).
\<close>

fun basis_row :: "real list \<Rightarrow> real list \<Rightarrow> nat \<Rightarrow> nat \<Rightarrow> real \<Rightarrow> real list
    \<Rightarrow> error + real list" where
  "basis_row left right j r saved [] = Inr [saved]"
| "basis_row left right j r saved (Nr # rest) =
     ebind (py_div Nr (right ! (r + 1) + left ! (j - r))) (\<lambda>temp.
       ebind (basis_row left right j (r + 1) (left ! (j - r) * temp) rest) (\<lambda>out.
         Inr ((saved + right ! (r + 1) * temp) # out)))"

definition basis_functions :: "int \<Rightarrow> real list \<Rightarrow> int \<Rightarrow> real \<Rightarrow> error + real list" where
  "basis_functions deg kv spn u =
     ebind
       (for_loop (py_range 1 (deg + 1))
          (\<lambda>j (N, left, right).
             ebind (py_get kv (spn + 1 - j)) (\<lambda>a. ebind (py_get kv (spn + j)) (\<lambda>b.
               let left' = left @ [u - a]; right' = right @ [b - u]
               in ebind (basis_row left' right' (nat j) 0 0 N) (\<lambda>N'. Inr (N', left', right')))))
          ([1], [0], [0]))
       (\<lambda>(N, left, right). Inr N)"

text \<open>
  Modelled from the spec: \<^verbatim>\<open>utilities.frange\<close> is not among the sources. The
  specification: the parameters \<open>0, delta, 2 * delta, ...\<close>, \<open>floor(1/delta) + 1\<close> of them.
\<close>

definition frange :: "real \<Rightarrow> real \<Rightarrow> real \<Rightarrow> real list" where
  "frange start stop step =
     map (\<lambda>k. start + real k * step) [0..<nat \<lfloor>(stop - start) / step\<rfloor> + 1]"

section \<open>The class \<^verbatim>\<open>Curve\<close>\<close>

text \<open>The fields of \<^verbatim>\<open>Curve.__init__\<close> (\<open>dimension\<close> is 3, and 2 for \<^verbatim>\<open>Curve2D\<close>).\<close>

record curve =
  degree :: int
  knot_vector :: "real list"
  control_points :: "point list"
  delta :: real
  curve_points :: "point list"
  dimension :: int

definition reset_ctrlpts :: "curve \<Rightarrow> curve" where
  "reset_ctrlpts c = (if control_points c \<noteq> [] then c\<lparr>control_points := []\<rparr> else c)"

definition reset_curve :: "curve \<Rightarrow> curve" where
  "reset_curve c = (if curve_points c \<noteq> [] then c\<lparr>curve_points := []\<rparr> else c)"

definition check_variables :: "curve \<Rightarrow> error + unit" where
  "check_variables c =
     (if degree c = 0 \<or> control_points c = [] \<or> knot_vector c = []
      then Inl ValueError else Inr ())"

subsection \<open>The setter of \<^verbatim>\<open>Curve.ctrlpts\<close>\<close>

text \<open>
  A method that changes the instance returns the exception raised, if any, together
  with the instance as the call leaves it: an exception does not undo the assignments
  made before it.
\<close>

fun ctrlpts_append :: "curve \<Rightarrow> point list \<Rightarrow> error option \<times> curve" where
  "ctrlpts_append c [] = (None, c)"
| "ctrlpts_append c (coord # rest) =
     (if int (length coord) < 0 \<or> int (length coord) > dimension c
      then (Some ValueError, c)
      else ctrlpts_append (c\<lparr>control_points := control_points c @ [coord]\<rparr>) rest)"

definition set_ctrlpts :: "curve \<Rightarrow> point list \<Rightarrow> error option \<times> curve" where
  "set_ctrlpts c val =
     (if int (length val) < degree c + 1 then (Some ValueError, c)
      else ctrlpts_append (reset_ctrlpts (reset_curve c)) val)"

subsection \<open>\<^verbatim>\<open>Curve.curvept\<close> and \<^verbatim>\<open>Curve.evaluate\<close>\<close>

text \<open>
  Algorithm A3.1. The optional list of contributing control points
  (\<^verbatim>\<open>get_ctrlpts=True\<close>) is not modelled. \<^verbatim>\<open>zip\<close> stops at the shorter list.
\<close>

definition curvept :: "curve \<Rightarrow> real \<Rightarrow> bool \<Rightarrow> error + point" where
  "curvept c u check_vars =
     ebind (if check_vars then ebind (check_variables c) (\<lambda>_. check_uv (Some u) None)
            else Inr ())
       (\<lambda>_. ebind (find_span (degree c) (knot_vector c) (int (length (control_points c))) u)
         (\<lambda>spn. ebind (basis_functions (degree c) (knot_vector c) spn u)
           (\<lambda>basis. for_loop (py_range 0 (degree c + 1))
              (\<lambda>i cpt.
                 ebind (py_get (control_points c) (spn - degree c + i)) (\<lambda>ctrl_pt.
                   if zip cpt ctrl_pt = [] then Inr []
                   else ebind (py_get basis i) (\<lambda>b.
                     Inr (map (\<lambda>(curve_pt, x). curve_pt + b * x) (zip cpt ctrl_pt)))))
              (replicate (nat (dimension c)) 0))))"

fun evaluate_loop :: "curve \<Rightarrow> real list \<Rightarrow> error option \<times> curve" where
  "evaluate_loop c [] = (None, c)"
| "evaluate_loop c (u # us) =
     (case curvept c u False of
        Inl e \<Rightarrow> (Some e, c)
      | Inr cpt \<Rightarrow> evaluate_loop (c\<lparr>curve_points := curve_points c @ [cpt]\<rparr>) us)"

definition evaluate :: "curve \<Rightarrow> error option \<times> curve" where
  "evaluate c =
     (case check_variables c of
        Inl e \<Rightarrow> (Some e, c)
      | Inr _ \<Rightarrow> evaluate_loop (reset_curve c) (frange 0 1 (delta c)))"

subsection \<open>\<^verbatim>\<open>Curve.insert_knot\<close>\<close>

text \<open>
  Algorithm A5.1 works on three local arrays: \<open>UQ\<close> (new knots), \<open>Q\<close> (new control
  points) and \<open>R\<close>. \<open>R[i]\<close> is bound once to a fresh copy of a control point and then
  changed in place by \<^verbatim>\<open>R[i][:] = ...\<close>, while \<^verbatim>\<open>Q[L] = R[0]\<close> stores the object
  itself, not a copy. A cell of \<open>Q\<close> is therefore either an old control point, which
  nothing changes during the call (\<open>Shared\<close>), or the object bound to \<open>R[i]\<close>
  (\<open>Obj i\<close>), whose value is the one \<open>R[i]\<close> has when the loops are over.
\<close>

datatype cell = Shared point | Obj nat

definition blend :: "real \<Rightarrow> point \<Rightarrow> point \<Rightarrow> point" where
  "blend alpha Ri Ri1 =
     map (\<lambda>(elem1, elem2). alpha * elem2 + (1 - alpha) * elem1) (zip Ri Ri1)"

text \<open>The value of the expression \<^verbatim>\<open>R[x]\<close> as it is stored into a cell of \<open>Q\<close>.\<close>

definition r_ref :: "point option list \<Rightarrow> int \<Rightarrow> error + cell option" where
  "r_ref R x =
     (case py_index (length R) x of
        None \<Rightarrow> Inl IndexError
      | Some j \<Rightarrow> Inr (case R ! j of None \<Rightarrow> None | Some _ \<Rightarrow> Some (Obj j)))"

definition deref :: "point option list \<Rightarrow> cell option \<Rightarrow> point option" where
  "deref R q = (case q of None \<Rightarrow> None | Some (Shared x) \<Rightarrow> Some x | Some (Obj j) \<Rightarrow> R ! j)"

text \<open>The three loops under \<^verbatim>\<open># Load new knot vector\<close>.\<close>

definition load_knot_vector ::
    "real list \<Rightarrow> int \<Rightarrow> real \<Rightarrow> int \<Rightarrow> real option list \<Rightarrow> error + real option list" where
  "load_knot_vector kv k u r UQ0 =
     ebind (for_loop (py_range 0 (k + 1))
              (\<lambda>i UQ. ebind (py_get kv i) (\<lambda>x. py_set UQ i (Some x))) UQ0) (\<lambda>UQ1.
     ebind (for_loop (py_range 1 (r + 1)) (\<lambda>i UQ. py_set UQ (k + i) (Some u)) UQ1) (\<lambda>UQ2.
     for_loop (py_range (k + 1) (int (length kv)))
       (\<lambda>i UQ. ebind (py_get kv i) (\<lambda>x. py_set UQ (i + r) (Some x))) UQ2))"

text \<open>The statement \<^verbatim>\<open>R[i][:] = [alpha*elem2 + (1.0-alpha)*elem1 for ... in zip(R[i], R[i+1])]\<close>.\<close>

definition r_update :: "point option list \<Rightarrow> int \<Rightarrow> real \<Rightarrow> error + point option list" where
  "r_update R i alpha =
     ebind (py_get R i) (\<lambda>x. ebind (py_get R (i + 1)) (\<lambda>y.
       case (x, y) of
         (Some Ri, Some Ri1) \<Rightarrow> py_set R i (Some (blend alpha Ri Ri1))
       | _ \<Rightarrow> Inl TypeError))"

definition insert_knot_arrays ::
    "curve \<Rightarrow> real \<Rightarrow> int \<Rightarrow> int \<Rightarrow> error + real list \<times> point list" where
  "insert_knot_arrays c u r s =
     ebind (find_span (degree c) (knot_vector c) (int (length (control_points c))) u) (\<lambda>k.
     let p = degree c; kv = knot_vector c; cp = control_points c;
         mp = int (length kv); np = int (length cp); nq = np + r;
         UQ0 = replicate (nat (mp + r)) None;
         Q0 = replicate (nat nq) None;
         R0 = replicate (nat (p + 1)) None
     in
     ebind (load_knot_vector kv k u r UQ0) (\<lambda>UQ.
     ebind (for_loop (py_range 0 (k - p + 1))
              (\<lambda>i Q. ebind (py_get cp i) (\<lambda>x. py_set Q i (Some (Shared x)))) Q0) (\<lambda>Q1.
     ebind (for_loop (py_range (k - s) np)
              (\<lambda>i Q. ebind (py_get cp i) (\<lambda>x. py_set Q (i + r) (Some (Shared x)))) Q1) (\<lambda>Q2.
     ebind (for_loop (py_range 0 (p - s + 1))
              (\<lambda>i R. ebind (py_get cp (k - p + i)) (\<lambda>x. py_set R i (Some x))) R0) (\<lambda>R1.
     ebind (for_loop (py_range 1 (r + 1))
              (\<lambda>j (R, Q).
                 let L = k - p + j in
                 ebind (for_loop (py_range 0 (p - j - s + 1))
                          (\<lambda>i R. ebind (py_get kv (L + i)) (\<lambda>a.
                                  ebind (py_get kv (i + k + 1)) (\<lambda>b.
                                  ebind (py_div (u - a) (b - a)) (\<lambda>alpha.
                                  r_update R i alpha))))
                          R) (\<lambda>R'.
                 ebind (r_ref R' 0) (\<lambda>c0. ebind (py_set Q L c0) (\<lambda>Q'.
                 ebind (r_ref R' (p - j - s)) (\<lambda>c1.
                 ebind (py_set Q' (k + r - j - s) c1) (\<lambda>Q''. Inr (R', Q'')))))))
              (R1, Q2)) (\<lambda>(R2, Q3).
     let L = k - p + r in
     ebind (for_loop (py_range (L + 1) (k - s))
              (\<lambda>i Q. ebind (r_ref R2 (i - L)) (\<lambda>x. py_set Q i x)) Q3) (\<lambda>Q4.
     case (those UQ, those (map (deref R2) Q4)) of
       (Some UQ', Some Q') \<Rightarrow> Inr (UQ', Q')
     | _ \<Rightarrow> Inl NoneCell)))))))"

text \<open>
  The method: the checks, the multiplicity test that ends the call with a warning, the
  algorithm, the assignment of both arrays, and the new evaluation when points had been
  evaluated before. The result lists the warnings issued.
\<close>

definition insert_knot :: "curve \<Rightarrow> real \<Rightarrow> int \<Rightarrow> error option \<times> curve \<times> warning list" where
  "insert_knot c u r =
     (if check_variables c \<noteq> Inr () then (Some ValueError, c, [])
      else if check_uv (Some u) None \<noteq> Inr () then (Some ValueError, c, [])
      else if r < 0 then (Some ValueError, c, [])
      else
        let s = find_multiplicity u (knot_vector c) in
        if r > degree c - s then (None, c, [CannotInsert r])
        else
          (case insert_knot_arrays c u r s of
             Inl e \<Rightarrow> (Some e, c, [])
           | Inr (UQ, Q) \<Rightarrow>
               let c' = c\<lparr>knot_vector := UQ, control_points := Q\<rparr> in
               if curve_points c' \<noteq> []
               then (let (eo, c'') = evaluate c' in (eo, c'', []))
               else (None, c', [])))"

section \<open>Derivatives of a curve\<close>

text \<open>
  Modelled from the spec: \<^verbatim>\<open>utilities.basis_functions_all\<close> is not among the
  sources. The specification: a table of \<open>degree + 1\<close> by \<open>degree + 1\<close> entries holding
  the basis values of every degree \<open>i \<le> degree\<close>, where the column \<open>i = degree\<close> is what
  \<open>basis_functions\<close> returns: entry \<open>[j][i]\<close> is value \<open>j\<close> of degree \<open>i\<close>, for \<open>j \<le> i\<close>.
  The other entries are never assigned (\<open>None\<close>).
\<close>

definition basis_functions_all ::
    "int \<Rightarrow> real list \<Rightarrow> int \<Rightarrow> real \<Rightarrow> error + real option list list" where
  "basis_functions_all deg kv spn u =
     for_loop (py_range 0 (deg + 1))
       (\<lambda>i N. ebind (basis_functions i kv spn u) (\<lambda>bfuns.
          for_loop (py_range 0 (i + 1))
            (\<lambda>j N. ebind (py_get bfuns j) (\<lambda>b. py_set2 N j i (Some b))) N))
       (replicate (nat (deg + 1)) (replicate (nat (deg + 1)) None))"

text \<open>
  Modelled from the spec: \<^verbatim>\<open>utilities.basis_functions_ders\<close> is not among the
  sources. The specification names Algorithm A2.3 of the NURBS book, which fills the
  table \<open>ders[k][j]\<close>, \<open>k \<le> n\<close>, \<open>j \<le> p\<close>:
  \<^verbatim>\<open>
  ndu[0][0] = 1.0
  for j in 1..p:
      left[j] = u - U[i+1-j];  right[j] = U[i+j] - u;  saved = 0.0
      for r in 0..j-1:
          ndu[j][r] = right[r+1] + left[j-r]
          temp = ndu[r][j-1] / ndu[j][r]
          ndu[r][j] = saved + right[r+1] * temp
          saved = left[j-r] * temp
      ndu[j][j] = saved
  for j in 0..p: ders[0][j] = ndu[j][p]
  for r in 0..p:
      s1 = 0; s2 = 1; a[0][0] = 1.0
      for k in 1..n:
          d = 0.0; rk = r - k; pk = p - k
          if r >= k:
              a[s2][0] = a[s1][0] / ndu[pk+1][rk];  d = a[s2][0] * ndu[rk][pk]
          j1 = 1 if rk >= -1 else -rk
          j2 = k - 1 if r - 1 <= pk else p - r
          for j in j1..j2:
              a[s2][j] = (a[s1][j] - a[s1][j-1]) / ndu[pk+1][rk+j]
              d += a[s2][j] * ndu[rk+j][pk]
          if r <= pk:
              a[s2][k] = -a[s1][k-1] / ndu[pk+1][r];  d += a[s2][k] * ndu[r][pk]
          ders[k][r] = d
          s1, s2 = s2, s1
  r = p
  for k in 1..n:
      for j in 0..p: ders[k][j] *= r
      r *= (p - k)
  \<close>
  The arrays start filled with \<open>0.0\<close>. The three stages are \<open>ders_ndu\<close>, \<open>ders_table\<close>
  (the loop over \<open>r\<close>) and \<open>ders_scale\<close>.
\<close>

definition ders_ndu :: "int \<Rightarrow> real list \<Rightarrow> int \<Rightarrow> real \<Rightarrow> error + real list list" where
  "ders_ndu p kv i u =
     (let z = replicate (nat (p + 1)) (0::real) in
      ebind (py_set2 (replicate (nat (p + 1)) z) 0 0 1) (\<lambda>ndu0.
      ebind
        (for_loop (py_range 1 (p + 1))
           (\<lambda>j (ndu, left, right).
              ebind (py_get kv (i + 1 - j)) (\<lambda>a. ebind (py_set left j (u - a)) (\<lambda>left.
              ebind (py_get kv (i + j)) (\<lambda>b. ebind (py_set right j (b - u)) (\<lambda>right.
              ebind
                (for_loop (py_range 0 j)
                   (\<lambda>r (ndu, saved).
                      ebind (py_get right (r + 1)) (\<lambda>rr. ebind (py_get left (j - r)) (\<lambda>ll.
                      ebind (py_set2 ndu j r (rr + ll)) (\<lambda>ndu.
                      ebind (py_get2 ndu r (j - 1)) (\<lambda>x. ebind (py_get2 ndu j r) (\<lambda>y.
                      ebind (py_div x y) (\<lambda>temp.
                      ebind (py_set2 ndu r j (saved + rr * temp)) (\<lambda>ndu.
                      Inr (ndu, ll * temp))))))))) (ndu, 0))
                (\<lambda>(ndu, saved). ebind (py_set2 ndu j j saved) (\<lambda>ndu.
                   Inr (ndu, left, right))))))))
           (ndu0, z, z))
        (\<lambda>(ndu, left, right). Inr ndu)))"

text \<open>
  One round \<open>k\<close> of the loop over \<open>k\<close> for the basis function \<open>r\<close>, in its four steps:
  the term \<open>j = 0\<close> (\<open>ders_first\<close>), the loop over \<open>j = j1..j2\<close> (its body is
  \<open>ders_mid\<close>), the term \<open>j = k\<close> (\<open>ders_last\<close>), and the assignment of \<open>ders[k][r]\<close>
  with the exchange of the two rows \<open>s1\<close>, \<open>s2\<close> of \<open>a\<close> (\<open>ders_round\<close>).
\<close>

definition ders_first ::
    "int \<Rightarrow> real list list \<Rightarrow> int \<Rightarrow> int \<Rightarrow> int \<Rightarrow> int \<Rightarrow> real list list
       \<Rightarrow> error + real list list \<times> real" where
  "ders_first p ndu r k s1 s2 a =
     (let rk = r - k; pk = p - k in
      if r \<ge> k then
        ebind (py_get2 a s1 0) (\<lambda>x. ebind (py_get2 ndu (pk + 1) rk) (\<lambda>y.
        ebind (py_div x y) (\<lambda>q. ebind (py_set2 a s2 0 q) (\<lambda>a.
        ebind (py_get2 ndu rk pk) (\<lambda>w. Inr (a, q * w))))))
      else Inr (a, 0))"

definition ders_mid ::
    "int \<Rightarrow> real list list \<Rightarrow> int \<Rightarrow> int \<Rightarrow> int \<Rightarrow> int \<Rightarrow> int \<Rightarrow> real list list \<times> real
       \<Rightarrow> error + real list list \<times> real" where
  "ders_mid p ndu r k s1 s2 j =
     (\<lambda>(a, d).
        let rk = r - k; pk = p - k in
        ebind (py_get2 a s1 j) (\<lambda>x1. ebind (py_get2 a s1 (j - 1)) (\<lambda>x0.
        ebind (py_get2 ndu (pk + 1) (rk + j)) (\<lambda>y.
        ebind (py_div (x1 - x0) y) (\<lambda>q. ebind (py_set2 a s2 j q) (\<lambda>a.
        ebind (py_get2 ndu (rk + j) pk) (\<lambda>w. Inr (a, d + q * w))))))))"

definition ders_last ::
    "int \<Rightarrow> real list list \<Rightarrow> int \<Rightarrow> int \<Rightarrow> int \<Rightarrow> int \<Rightarrow> real list list \<times> real
       \<Rightarrow> error + real list list \<times> real" where
  "ders_last p ndu r k s1 s2 =
     (\<lambda>(a, d).
        let pk = p - k in
        if r \<le> pk then
          ebind (py_get2 a s1 (k - 1)) (\<lambda>x. ebind (py_get2 ndu (pk + 1) r) (\<lambda>y.
          ebind (py_div (- x) y) (\<lambda>q. ebind (py_set2 a s2 k q) (\<lambda>a.
          ebind (py_get2 ndu r pk) (\<lambda>w. Inr (a, d + q * w))))))
        else Inr (a, d))"

definition ders_round ::
    "int \<Rightarrow> real list list \<Rightarrow> int \<Rightarrow> int \<Rightarrow> real list list \<times> real list list \<times> int \<times> int
       \<Rightarrow> error + real list list \<times> real list list \<times> int \<times> int" where
  "ders_round p ndu r k =
     (\<lambda>(ders, a, s1, s2).
        let rk = r - k; pk = p - k in
        ebind (ders_first p ndu r k s1 s2 a) (\<lambda>ad.
        let j1 = (if rk \<ge> - 1 then 1 else - rk);
            j2 = (if r - 1 \<le> pk then k - 1 else p - r) in
        ebind (for_loop (py_range j1 (j2 + 1)) (ders_mid p ndu r k s1 s2) ad) (\<lambda>ad.
        ebind (ders_last p ndu r k s1 s2 ad) (\<lambda>(a, d).
        ebind (py_set2 ders k r d) (\<lambda>ders. Inr (ders, a, s2, s1))))))"

definition ders_table ::
    "int \<Rightarrow> int \<Rightarrow> real list list \<Rightarrow> real list list \<Rightarrow> error + real list list" where
  "ders_table p n ndu ders0 =
     ebind
       (for_loop (py_range 0 (p + 1))
          (\<lambda>r (ders, a).
             ebind (py_set2 a 0 0 1) (\<lambda>a.
             ebind (for_loop (py_range 1 (n + 1)) (ders_round p ndu r) (ders, a, 0, 1))
               (\<lambda>(ders, a, s1, s2). Inr (ders, a))))
          (ders0, replicate 2 (replicate (nat (p + 1)) 0)))
       (\<lambda>(ders, a). Inr ders)"

definition ders_scale :: "int \<Rightarrow> int \<Rightarrow> real list list \<Rightarrow> error + real list list" where
  "ders_scale p n ders0 =
     ebind
       (for_loop (py_range 1 (n + 1))
          (\<lambda>k (ders, r).
             ebind
               (for_loop (py_range 0 (p + 1))
                  (\<lambda>j ders. ebind (py_get2 ders k j) (\<lambda>x. py_set2 ders k j (x * real_of_int r)))
                  ders)
               (\<lambda>ders. Inr (ders, r * (p - k))))
          (ders0, p))
       (\<lambda>(ders, r). Inr ders)"

definition basis_functions_ders ::
    "int \<Rightarrow> real list \<Rightarrow> int \<Rightarrow> real \<Rightarrow> int \<Rightarrow> error + real list list" where
  "basis_functions_ders p kv i u n =
     ebind (ders_ndu p kv i u) (\<lambda>ndu.
     ebind
       (for_loop (py_range 0 (p + 1))
          (\<lambda>j ders. ebind (py_get2 ndu j p) (\<lambda>x. py_set2 ders 0 j x))
          (replicate (nat (n + 1)) (replicate (nat (p + 1)) 0)))
       (\<lambda>ders. ebind (ders_table p n ndu ders) (ders_scale p n)))"

text \<open>
  The list \<open>CK\<close> of both derivative methods: \<open>order + 1\<close> vectors of \<open>dimension\<close> cells
  \<^verbatim>\<open>None\<close>, of which those from \<open>degree + 1\<close> on are replaced by zero vectors.
\<close>

definition ck_init :: "curve \<Rightarrow> int \<Rightarrow> error + real option list list" where
  "ck_init c order =
     for_loop (py_range (degree c + 1) (order + 1))
       (\<lambda>k CK. py_set CK k (replicate (nat (dimension c)) (Some 0)))
       (replicate (nat (order + 1)) (replicate (nat (dimension c)) None))"

text \<open>
  The comprehension \<^verbatim>\<open>[acc + (coeff * x) for acc, x in zip(accs, xs)]\<close>: the
  coefficient is an expression read for each pair (it may raise), and a cell that is
  \<^verbatim>\<open>None\<close> raises \<^verbatim>\<open>TypeError\<close>.
\<close>

definition axpy ::
    "real option list \<Rightarrow> error + real \<Rightarrow> real option list \<Rightarrow> error + real option list" where
  "axpy accs coeff xs =
     (if zip accs xs = [] then Inr []
      else ebind coeff (\<lambda>b.
        if list_ex (\<lambda>(a, x). a = None \<or> x = None) (zip accs xs) then Inl TypeError
        else Inr (map (\<lambda>(a, x). Some (the a + b * the x)) (zip accs xs))))"

subsection \<open>\<^verbatim>\<open>Curve.derivatives2\<close> (Algorithm A3.2)\<close>

definition derivatives2 :: "curve \<Rightarrow> real \<Rightarrow> int \<Rightarrow> error + real option list list" where
  "derivatives2 c u order =
     ebind (check_variables c) (\<lambda>_.
     if u < 0 \<or> u > 1 then Inl ValueError
     else
       let du = min (degree c) order in
       ebind (ck_init c order) (\<lambda>CK0.
       ebind (find_span (degree c) (knot_vector c) (int (length (control_points c))) u)
         (\<lambda>spn.
       ebind (basis_functions_ders (degree c) (knot_vector c) spn u du) (\<lambda>bfunsders.
       for_loop (py_range 0 (du + 1))
         (\<lambda>k CK.
            ebind (py_set CK k (replicate (nat (dimension c)) (Some 0))) (\<lambda>CK1.
            for_loop (py_range 0 (degree c + 1))
              (\<lambda>j CK.
                 ebind (py_get CK k) (\<lambda>CKk.
                 ebind (py_get (control_points c) (spn - degree c + j)) (\<lambda>ctrl_pt.
                 ebind (axpy CKk (py_get2 bfunsders k j) (map Some ctrl_pt)) (\<lambda>v.
                 py_set CK k v))))
              CK1))
         CK0))))"

subsection \<open>\<^verbatim>\<open>Curve.derivatives_ctrlpts\<close> (Algorithm A3.3)\<close>

text \<open>
  The comprehension
  \<^verbatim>\<open>[tmp * (elem1 - elem2) / (kv[a] - kv[b]) for elem1, elem2 in zip(...)]\<close>.
\<close>

fun diff_quot ::
    "int \<Rightarrow> (real option \<times> real option) list \<Rightarrow> real list \<Rightarrow> int \<Rightarrow> int
       \<Rightarrow> error + real option list" where
  "diff_quot tmp [] kv a b = Inr []"
| "diff_quot tmp ((e1, e2) # rest) kv a b =
     (case (e1, e2) of
        (Some x, Some y) \<Rightarrow>
          ebind (py_get kv a) (\<lambda>ka. ebind (py_get kv b) (\<lambda>kb.
          ebind (py_div (real_of_int tmp * (x - y)) (ka - kb)) (\<lambda>q.
          ebind (diff_quot tmp rest kv a b) (\<lambda>qs. Inr (Some q # qs)))))
      | _ \<Rightarrow> Inl TypeError)"

definition derivatives_ctrlpts ::
    "curve \<Rightarrow> int \<Rightarrow> int \<Rightarrow> int \<Rightarrow> error + real option list list list" where
  "derivatives_ctrlpts c order r1 r2 =
     (let r = r2 - r1 in
      ebind
        (for_loop (py_range 0 (r + 1))
           (\<lambda>i PK. ebind (py_get (control_points c) (r1 + i)) (\<lambda>pt.
                      py_set2 PK 0 i (map Some pt)))
           (replicate (nat (order + 1))
              (replicate (nat (r + 1)) (replicate (nat (dimension c)) None))))
        (for_loop (py_range 1 (order + 1))
           (\<lambda>k. let tmp = degree c - k + 1 in
              for_loop (py_range 0 (r - k + 1))
                (\<lambda>i PK.
                   ebind (py_get2 PK (k - 1) (i + 1)) (\<lambda>e1s.
                   ebind (py_get2 PK (k - 1) i) (\<lambda>e2s.
                   ebind (diff_quot tmp (zip e1s e2s) (knot_vector c)
                            (r1 + i + degree c + 1) (r1 + i + k)) (\<lambda>v.
                   py_set2 PK k i v)))))))"

subsection \<open>\<^verbatim>\<open>Curve.derivatives\<close> (Algorithm A3.4)\<close>

definition derivatives :: "curve \<Rightarrow> real \<Rightarrow> int \<Rightarrow> error + real option list list" where
  "derivatives c u order =
     ebind (check_variables c) (\<lambda>_. ebind (check_uv (Some u) None) (\<lambda>_.
     let du = min (degree c) order in
     ebind (ck_init c order) (\<lambda>CK0.
     ebind (find_span (degree c) (knot_vector c) (int (length (control_points c))) u)
       (\<lambda>spn.
     ebind (basis_functions_all (degree c) (knot_vector c) spn u) (\<lambda>bfuns.
     ebind (derivatives_ctrlpts c du (spn - degree c) spn) (\<lambda>PK.
     for_loop (py_range 0 (du + 1))
       (\<lambda>k CK.
          ebind (py_set CK k (replicate (nat (dimension c)) (Some 0))) (\<lambda>CK1.
          for_loop (py_range 0 (degree c - k + 1))
            (\<lambda>j CK.
               ebind (py_get CK k) (\<lambda>CKk.
               ebind (py_get2 PK k j) (\<lambda>drv_ctrlpt.
               ebind (axpy CKk
                        (ebind (py_get2 bfuns j (degree c - k))
                           (\<lambda>b. case b of None \<Rightarrow> Inl TypeError | Some x \<Rightarrow> Inr x))
                        drv_ctrlpt) (\<lambda>v.
               py_set CK k v))))
            CK1))
       CK0))))))"

section \<open>The class \<^verbatim>\<open>Surface\<close>: data\<close>

text \<open>
  The fields of \<^verbatim>\<open>Surface.__init__\<close>. The fields of a surface that a curve has too
  carry the prefix \<open>s_\<close>. The visualisation component and the flag \<^verbatim>\<open>_rational\<close>
  take no part in any operation below and are left out.
\<close>

record surface =
  degree_u :: int
  degree_v :: int
  knot_vector_u :: "real list"
  knot_vector_v :: "real list"
  s_control_points :: "point list"
  control_points2D :: "point list list"
  control_points_size_u :: int
  control_points_size_v :: int
  s_delta :: real
  surface_points :: "point list"
  s_dimension :: int

text \<open>\<^verbatim>\<open>Surface._reset_ctrlpts\<close> and \<^verbatim>\<open>Surface._reset_surface\<close>.\<close>

definition s_reset_ctrlpts :: "surface \<Rightarrow> surface" where
  "s_reset_ctrlpts s =
     (if s_control_points s \<noteq> []
      then s\<lparr>s_control_points := [], control_points2D := [],
             control_points_size_u := 0, control_points_size_v := 0\<rparr>
      else s)"

definition reset_surface :: "surface \<Rightarrow> surface" where
  "reset_surface s = (if surface_points s \<noteq> [] then s\<lparr>surface_points := []\<rparr> else s)"

definition s_check_variables :: "surface \<Rightarrow> error + unit" where
  "s_check_variables s =
     (if degree_u s = 0 \<or> degree_v s = 0 \<or> s_control_points s = []
         \<or> knot_vector_u s = [] \<or> knot_vector_v s = []
      then Inl ValueError else Inr ())"

section \<open>\<^verbatim>\<open>Surface.set_ctrlpts\<close>\<close>

text \<open>
  The method clears the evaluated points and the control points first, then checks
  the degrees, the two sizes and the length of every point, then stores the points and
  the sizes and fills the grid: row \<open>i\<close> of the grid is
  \<^verbatim>\<open>[ctrlpts[j + i * size_v] for j in range(size_v)]\<close>.
\<close>

fun set_ctrlpts_grid :: "surface \<Rightarrow> int list \<Rightarrow> error option \<times> surface" where
  "set_ctrlpts_grid s [] = (None, s)"
| "set_ctrlpts_grid s (i # is) =
     (case for_loop (py_range 0 (control_points_size_v s))
             (\<lambda>j ctrlpts_v.
                ebind (py_get (s_control_points s) (j + i * control_points_size_v s))
                  (\<lambda>x. Inr (ctrlpts_v @ [x])))
             []
      of Inl e \<Rightarrow> (Some e, s)
       | Inr ctrlpts_v \<Rightarrow>
           set_ctrlpts_grid (s\<lparr>control_points2D := control_points2D s @ [ctrlpts_v]\<rparr>) is)"

definition s_set_ctrlpts ::
    "surface \<Rightarrow> point list \<Rightarrow> int \<Rightarrow> int \<Rightarrow> error option \<times> surface" where
  "s_set_ctrlpts s0 ctrlpts size_u size_v =
     (let s = s_reset_ctrlpts (reset_surface s0) in
      if degree_u s = 0 \<or> degree_v s = 0 then (Some ValueError, s)
      else if size_u < degree_u s + 1 then (Some ValueError, s)
      else if size_v < degree_v s + 1 then (Some ValueError, s)
      else if list_ex (\<lambda>cpt. int (length cpt) \<noteq> s_dimension s) ctrlpts
        then (Some ValueError, s)
      else set_ctrlpts_grid
             (s\<lparr>s_control_points := ctrlpts,
                control_points_size_u := size_u,
                control_points_size_v := size_v\<rparr>)
             (py_range 0 size_u))"

section \<open>\<^verbatim>\<open>Surface.surfpt\<close> and \<^verbatim>\<open>Surface.evaluate\<close>\<close>

text \<open>Algorithm A3.5; the optional list of contributing control points is not modelled.\<close>

definition surfpt :: "surface \<Rightarrow> real \<Rightarrow> real \<Rightarrow> bool \<Rightarrow> error + point" where
  "surfpt s u v check_vars =
     ebind (if check_vars then ebind (s_check_variables s) (\<lambda>_. check_uv (Some u) (Some v))
            else Inr ()) (\<lambda>_.
     ebind (find_span (degree_v s) (knot_vector_v s) (control_points_size_v s) v) (\<lambda>span_v.
     ebind (basis_functions (degree_v s) (knot_vector_v s) span_v v) (\<lambda>basis_v.
     ebind (find_span (degree_u s) (knot_vector_u s) (control_points_size_u s) u) (\<lambda>span_u.
     ebind (basis_functions (degree_u s) (knot_vector_u s) span_u u) (\<lambda>basis_u.
     let idx_u = span_u - degree_u s in
     for_loop (py_range 0 (degree_v s + 1))
       (\<lambda>l spt.
          let idx_v = span_v - degree_v s + l in
          ebind (for_loop (py_range 0 (degree_u s + 1))
                   (\<lambda>k temp.
                      ebind (py_get2 (control_points2D s) (idx_u + k) idx_v) (\<lambda>cp.
                        if zip temp cp = [] then Inr []
                        else ebind (py_get basis_u k) (\<lambda>b.
                          Inr (map (\<lambda>(tmp, x). tmp + b * x) (zip temp cp)))))
                   (replicate (nat (s_dimension s)) 0)) (\<lambda>temp.
          if zip spt temp = [] then Inr []
          else ebind (py_get basis_v l) (\<lambda>b.
            Inr (map (\<lambda>(pt, tmp). pt + b * tmp) (zip spt temp)))))
       (replicate (nat (s_dimension s)) 0))))))"

fun s_evaluate_loop :: "surface \<Rightarrow> (real \<times> real) list \<Rightarrow> error option \<times> surface" where
  "s_evaluate_loop s [] = (None, s)"
| "s_evaluate_loop s ((u, v) # uvs) =
     (case surfpt s u v False of
        Inl e \<Rightarrow> (Some e, s)
      | Inr spt \<Rightarrow> s_evaluate_loop (s\<lparr>surface_points := surface_points s @ [spt]\<rparr>) uvs)"

definition s_evaluate :: "surface \<Rightarrow> error option \<times> surface" where
  "s_evaluate s =
     (case s_check_variables s of
        Inl e \<Rightarrow> (Some e, s)
      | Inr _ \<Rightarrow>
          s_evaluate_loop (reset_surface s)
            (concat (map (\<lambda>u. map (\<lambda>v. (u, v)) (frange 0 1 (s_delta s)))
                       (frange 0 1 (s_delta s)))))"

section \<open>\<^verbatim>\<open>Surface.insert_knot\<close>\<close>

text \<open>
  Algorithm A5.3. The method keeps three local variables across its two branches: the
  flag \<^verbatim>\<open>can_insert_knot\<close>, set to \<^verbatim>\<open>True\<close> once at the top; the span \<^verbatim>\<open>k_u\<close>,
  assigned in the \<open>u\<close> branch only; and \<^verbatim>\<open>L\<close>. A local variable that has not been
  assigned is \<open>None\<close> here, and reading it raises \<^verbatim>\<open>UnboundLocalError\<close>.

  The \<open>alpha\<close> table is filled first (\<^verbatim>\<open># Save the alphas\<close>).
\<close>

definition save_alphas ::
    "real list \<Rightarrow> int \<Rightarrow> int \<Rightarrow> int \<Rightarrow> real \<Rightarrow> int \<Rightarrow> int option
       \<Rightarrow> error + real list list \<times> int option" where
  "save_alphas kv k p s u r L0 =
     for_loop (py_range 1 (r + 1))
       (\<lambda>j (alpha, L).
          let L' = k - p + j in
          ebind (for_loop (py_range 0 (p - j - s + 1))
                   (\<lambda>i alpha. ebind (py_get kv (L' + i)) (\<lambda>a.
                               ebind (py_get kv (i + k + 1)) (\<lambda>b.
                               ebind (py_div (u - a) (b - a)) (\<lambda>x.
                               py_set2 alpha i j x))))
                   alpha) (\<lambda>alpha'. Inr (alpha', Some L')))
       (replicate (nat (p - s)) (replicate (nat (r + 1)) 0), L0)"

text \<open>
  The statement
  \<^verbatim>\<open>R[i][:] = [alpha[i][j]*elem2 + (1.0-alpha[i][j])*elem1 for ... in zip(R[i], R[i+1])]\<close>;
  \<^verbatim>\<open>alpha[i][j]\<close> is read once for each pair of the \<^verbatim>\<open>zip\<close>.
\<close>

definition r_update_tab ::
    "point option list \<Rightarrow> real list list \<Rightarrow> int \<Rightarrow> int \<Rightarrow> error + point option list" where
  "r_update_tab R alpha i j =
     ebind (py_get R i) (\<lambda>x. ebind (py_get R (i + 1)) (\<lambda>y.
       case (x, y) of
         (Some Ri, Some Ri1) \<Rightarrow>
           if zip Ri Ri1 = [] then py_set R i (Some [])
           else ebind (py_get2 alpha i j) (\<lambda>a. py_set R i (Some (blend a Ri Ri1)))
       | _ \<Rightarrow> Inl TypeError))"

text \<open>
  When the work on one row (or column) of the grid is over, the objects bound to \<open>R\<close>
  are not changed any more: the next row binds \<open>R[i]\<close> to new copies. The cells of \<open>Q\<close>
  that hold such an object are then fixed to its value.
\<close>

definition freeze :: "point option list \<Rightarrow> cell option \<Rightarrow> cell option" where
  "freeze R q =
     (case q of
        Some (Obj j) \<Rightarrow> (case R ! j of None \<Rightarrow> None | Some x \<Rightarrow> Some (Shared x))
      | _ \<Rightarrow> q)"

text \<open>The body of \<^verbatim>\<open>for row in range(0, mp)\<close> in the \<open>u\<close> branch.\<close>

definition insert_row_u ::
    "point list list \<Rightarrow> real list list \<Rightarrow> int \<Rightarrow> int \<Rightarrow> int \<Rightarrow> int \<Rightarrow> int \<Rightarrow> int
       \<Rightarrow> cell option list list \<times> point option list \<times> int option
       \<Rightarrow> error + cell option list list \<times> point option list \<times> int option" where
  "insert_row_u cp alpha k_u p s_u r np row st =
     (case st of (Q, R, L) \<Rightarrow>
     ebind (for_loop (py_range 0 (k_u - p + 1))
              (\<lambda>i Q. ebind (py_get2 cp i row) (\<lambda>x. py_set2 Q i row (Some (Shared x)))) Q)
       (\<lambda>Q1.
     ebind (for_loop (py_range (k_u - s_u) np)
              (\<lambda>i Q. ebind (py_get2 cp i row) (\<lambda>x. py_set2 Q (i + r) row (Some (Shared x))))
              Q1) (\<lambda>Q2.
     ebind (for_loop (py_range 0 (p - s_u + 1))
              (\<lambda>i R. ebind (py_get2 cp (k_u - p + i) row) (\<lambda>x. py_set R i (Some x))) R)
       (\<lambda>R1.
     ebind (for_loop (py_range 1 (r + 1))
              (\<lambda>j (R, Q, L).
                 let L' = k_u - p + j in
                 ebind (for_loop (py_range 0 (p - j - s_u + 1))
                          (\<lambda>i R. r_update_tab R alpha i j) R) (\<lambda>R'.
                 ebind (r_ref R' 0) (\<lambda>c0. ebind (py_set2 Q L' row c0) (\<lambda>Q'.
                 ebind (r_ref R' (p - j - s_u)) (\<lambda>c1.
                 ebind (py_set2 Q' (k_u + r - j - s_u) row c1) (\<lambda>Q''.
                 Inr (R', Q'', Some L')))))))
              (R1, Q2, L)) (\<lambda>(R2, Q3, L2).
     let L' = k_u - p + r in
     ebind (for_loop (py_range (L' + 1) (k_u - s_u))
              (\<lambda>i Q. ebind (r_ref R2 (i - L')) (\<lambda>x. py_set2 Q i row x)) Q3) (\<lambda>Q4.
     Inr (map (map (freeze R2)) Q4, R2, Some L')))))))"

text \<open>
  The body of \<^verbatim>\<open>for col in range(0, np)\<close> in the \<open>v\<close> branch. The auxiliary points
  are loaded from \<^verbatim>\<open>self._control_points2D[col][k_u - q + i]\<close>, and the last loop
  starts from the value \<open>L\<close> has at that moment (its assignment is commented out).
\<close>

definition insert_col_v ::
    "point list list \<Rightarrow> real list list \<Rightarrow> int option \<Rightarrow> int \<Rightarrow> int \<Rightarrow> int \<Rightarrow> int \<Rightarrow> int
       \<Rightarrow> int
       \<Rightarrow> cell option list list \<times> point option list \<times> int option
       \<Rightarrow> error + cell option list list \<times> point option list \<times> int option" where
  "insert_col_v cp alpha k_u k_v q s_v r mp col st =
     (case st of (Q, R, L) \<Rightarrow>
     ebind (for_loop (py_range 0 (k_v - q + 1))
              (\<lambda>i Q. ebind (py_get2 cp col i) (\<lambda>x. py_set2 Q col i (Some (Shared x)))) Q)
       (\<lambda>Q1.
     ebind (for_loop (py_range (k_v - s_v) mp)
              (\<lambda>i Q. ebind (py_get2 cp col i) (\<lambda>x. py_set2 Q col (i + r) (Some (Shared x))))
              Q1) (\<lambda>Q2.
     ebind (for_loop (py_range 0 (q - s_v + 1))
              (\<lambda>i R. ebind (py_get cp col) (\<lambda>line.
                        case k_u of
                          None \<Rightarrow> Inl UnboundLocalError
                        | Some ku \<Rightarrow>
                            ebind (py_get line (ku - q + i)) (\<lambda>x. py_set R i (Some x))))
              R) (\<lambda>R1.
     ebind (for_loop (py_range 1 (r + 1))
              (\<lambda>j (R, Q, L).
                 let L' = k_v - q + j in
                 ebind (for_loop (py_range 0 (q - j - s_v + 1))
                          (\<lambda>i R. r_update_tab R alpha i j) R) (\<lambda>R'.
                 ebind (r_ref R' 0) (\<lambda>c0. ebind (py_set2 Q col L' c0) (\<lambda>Q'.
                 ebind (r_ref R' (q - j - s_v)) (\<lambda>c1.
                 ebind (py_set2 Q' col (k_v + r - j - s_v) c1) (\<lambda>Q''.
                 Inr (R', Q'', Some L')))))))
              (R1, Q2, L)) (\<lambda>(R2, Q3, L2).
     case L2 of
       None \<Rightarrow> Inl UnboundLocalError
     | Some L' \<Rightarrow>
         ebind (for_loop (py_range (L' + 1) (k_v - s_v))
                  (\<lambda>i Q. ebind (r_ref R2 (i - L')) (\<lambda>x. py_set2 Q col i x)) Q3) (\<lambda>Q4.
         Inr (map (map (freeze R2)) Q4, R2, L2)))))))"

text \<open>
  The arrays of the \<open>u\<close> branch (the body of \<^verbatim>\<open>if can_insert_knot:\<close> up to the
  assignments to \<^verbatim>\<open>self\<close>): the new knot vector, the new grid, \<^verbatim>\<open>k_u\<close> and \<^verbatim>\<open>L\<close>.
\<close>

definition insert_arrays_u ::
    "surface \<Rightarrow> real \<Rightarrow> int \<Rightarrow> int
       \<Rightarrow> error + real list \<times> point list list \<times> int \<times> int option" where
  "insert_arrays_u s u r s_u =
     (let p = degree_u s; np = control_points_size_u s; mp = control_points_size_v s in
      ebind (find_span (degree_u s) (knot_vector_u s) (control_points_size_u s) u) (\<lambda>k_u.
      let UQ0 = replicate (nat (int (length (knot_vector_u s)) + r)) None;
          Q0 = replicate (nat (control_points_size_u s + r))
                 (replicate (nat (control_points_size_v s)) None);
          R0 = replicate (nat (p + 1)) None
      in
      ebind (load_knot_vector (knot_vector_u s) k_u u r UQ0) (\<lambda>UQ.
      ebind (save_alphas (knot_vector_u s) k_u p s_u u r None) (\<lambda>(alpha, L1).
      ebind (for_loop (py_range 0 mp)
               (insert_row_u (control_points2D s) alpha k_u p s_u r np) (Q0, R0, L1))
        (\<lambda>(Q, R, L2).
      case (those UQ, those (map (\<lambda>line. those (map (deref R) line)) Q)) of
        (Some UQ', Some Q') \<Rightarrow> Inr (UQ', Q', k_u, L2)
      | _ \<Rightarrow> Inl NoneCell)))))"

text \<open>The arrays of the \<open>v\<close> branch; \<open>k_u\<close> and \<open>L\<close> are what the \<open>u\<close> branch left.\<close>

definition insert_arrays_v ::
    "surface \<Rightarrow> real \<Rightarrow> int \<Rightarrow> int \<Rightarrow> int option \<Rightarrow> int option
       \<Rightarrow> error + real list \<times> point list list" where
  "insert_arrays_v s v r s_v k_u L0 =
     (let q = degree_v s; np = control_points_size_u s; mp = control_points_size_v s in
      ebind (find_span (degree_v s) (knot_vector_v s) (control_points_size_v s) v) (\<lambda>k_v.
      let VQ0 = replicate (nat (int (length (knot_vector_v s)) + r)) None;
          Q0 = replicate (nat (control_points_size_u s))
                 (replicate (nat (control_points_size_v s + r)) None);
          R0 = replicate (nat (q + 1)) None
      in
      ebind (load_knot_vector (knot_vector_v s) k_v v r VQ0) (\<lambda>VQ.
      ebind (save_alphas (knot_vector_v s) k_v q s_v v r L0) (\<lambda>(alpha, L1).
      ebind (for_loop (py_range 0 np)
               (insert_col_v (control_points2D s) alpha k_u k_v q s_v r mp) (Q0, R0, L1))
        (\<lambda>(Q, R, L2).
      case (those VQ, those (map (\<lambda>line. those (map (deref R) line)) Q)) of
        (Some VQ', Some Q') \<Rightarrow> Inr (VQ', Q')
      | _ \<Rightarrow> Inl NoneCell)))))"

text \<open>Python's truth value of an optional float: \<^verbatim>\<open>None\<close> and \<^verbatim>\<open>0.0\<close> are false.\<close>

definition truthy :: "real option \<Rightarrow> bool" where
  "truthy x = (case x of None \<Rightarrow> False | Some a \<Rightarrow> a \<noteq> 0)"

text \<open>
  The \<open>u\<close> branch (\<^verbatim>\<open>if u:\<close>). Its result: the exception raised, if any, the surface,
  the warnings, and the locals \<^verbatim>\<open>can_insert_knot\<close>, \<^verbatim>\<open>k_u\<close> and \<^verbatim>\<open>L\<close>.
\<close>

definition insert_knot_branch_u ::
    "surface \<Rightarrow> real option \<Rightarrow> int
       \<Rightarrow> error option \<times> surface \<times> warning list \<times> bool \<times> int option \<times> int option" where
  "insert_knot_branch_u s u r =
     (if truthy u then
        let s_u = find_multiplicity (the u) (knot_vector_u s) in
        if r > degree_u s - s_u then (None, s, [CannotInsertU r], False, None, None)
        else
          (case insert_arrays_u s (the u) r s_u of
             Inl e \<Rightarrow> (Some e, s, [], True, None, None)
           | Inr (UQ, Q, k_u, L) \<Rightarrow>
               (None,
                s\<lparr>knot_vector_u := UQ, control_points2D := Q,
                  control_points_size_u := control_points_size_u s + r,
                  s_control_points := concat Q\<rparr>,
                [], True, Some k_u, L))
      else (None, s, [], True, None, None))"

text \<open>The \<open>v\<close> branch (\<^verbatim>\<open>if v:\<close>), entered with the locals the \<open>u\<close> branch left.\<close>

definition insert_knot_branch_v ::
    "surface \<Rightarrow> real option \<Rightarrow> int \<Rightarrow> bool \<Rightarrow> int option \<Rightarrow> int option
       \<Rightarrow> error option \<times> surface \<times> warning list" where
  "insert_knot_branch_v s v r can_insert_knot k_u L =
     (if truthy v then
        let s_v = find_multiplicity (the v) (knot_vector_v s);
            rejected = (r > degree_v s - s_v);
            warnings = (if rejected then [CannotInsertV r] else [])
        in
        if can_insert_knot \<and> \<not> rejected then
          (case insert_arrays_v s (the v) r s_v k_u L of
             Inl e \<Rightarrow> (Some e, s, warnings)
           | Inr (VQ, Q) \<Rightarrow>
               (None,
                s\<lparr>knot_vector_v := VQ, control_points2D := Q,
                  control_points_size_v := control_points_size_v s + r,
                  s_control_points := concat Q\<rparr>,
                warnings))
        else (None, s, warnings)
      else (None, s, []))"

text \<open>
  The method: \<^verbatim>\<open>_check_variables\<close>, the parameter check under \<^verbatim>\<open>if u or v:\<close>, the
  check of \<open>r\<close>, the two branches, and the new evaluation when points had been evaluated
  before.
\<close>

definition s_insert_knot ::
    "surface \<Rightarrow> real option \<Rightarrow> real option \<Rightarrow> int \<Rightarrow> error option \<times> surface \<times> warning list"
    where
  "s_insert_knot s u v r =
     (if s_check_variables s \<noteq> Inr () then (Some ValueError, s, [])
      else if (truthy u \<or> truthy v) \<and> check_uv u v \<noteq> Inr () then (Some ValueError, s, [])
      else if r < 0 then (Some ValueError, s, [])
      else
        (case insert_knot_branch_u s u r of
           (Some e, s1, w1, _) \<Rightarrow> (Some e, s1, w1)
         | (None, s1, w1, can_insert_knot, k_u, L) \<Rightarrow>
             (case insert_knot_branch_v s1 v r can_insert_knot k_u L of
                (Some e, s2, w2) \<Rightarrow> (Some e, s2, w1 @ w2)
              | (None, s2, w2) \<Rightarrow>
                  if surface_points s2 \<noteq> []
                  then (let (eo, s3) = s_evaluate s2 in (eo, s3, w1 @ w2))
                  else (None, s2, w1 @ w2))))"

section \<open>\<^verbatim>\<open>Surface.transpose\<close>\<close>

text \<open>
  The new grid is built row by row from \<^verbatim>\<open>self._control_points2D[u][v]\<close>; the new
  flat list is then filled by a loop over \<open>v\<close> (outer) and \<open>u\<close> (inner) that appends
  \<^verbatim>\<open>ctrlpts2D_new[u][v]\<close>.
\<close>

definition surface_transpose :: "surface \<Rightarrow> error + surface" where
  "surface_transpose s =
     (let degree_u_new = degree_v s;
          degree_v_new = degree_u s;
          kv_u_new = knot_vector_v s;
          kv_v_new = knot_vector_u s
      in ebind
           (for_loop (py_range 0 (control_points_size_v s))
              (\<lambda>v ctrlpts2D_new.
                 ebind
                   (for_loop (py_range 0 (control_points_size_u s))
                      (\<lambda>u ctrlpts_u.
                         ebind (py_get2 (control_points2D s) u v)
                           (\<lambda>temp. Inr (ctrlpts_u @ [temp])))
                      [])
                   (\<lambda>ctrlpts_u. Inr (ctrlpts2D_new @ [ctrlpts_u])))
              [])
           (\<lambda>ctrlpts2D_new.
              let ctrlpts_new_sizeU = control_points_size_v s;
                  ctrlpts_new_sizeV = control_points_size_u s
              in ebind
                   (for_loop (py_range 0 ctrlpts_new_sizeV)
                      (\<lambda>v. for_loop (py_range 0 ctrlpts_new_sizeU)
                         (\<lambda>u ctrlpts_new.
                            ebind (py_get2 ctrlpts2D_new u v)
                              (\<lambda>x. Inr (ctrlpts_new @ [x]))))
                      [])
                   (\<lambda>ctrlpts_new.
                      Inr ((reset_surface s)
                        \<lparr>degree_u := degree_u_new,
                         degree_v := degree_v_new,
                         knot_vector_u := kv_u_new,
                         knot_vector_v := kv_v_new,
                         s_control_points := ctrlpts_new,
                         control_points_size_u := ctrlpts_new_sizeU,
                         control_points_size_v := ctrlpts_new_sizeV,
                         control_points2D := ctrlpts2D_new\<rparr>))))"

text \<open>
  The layout that \<^verbatim>\<open>Surface.set_ctrlpts\<close> establishes and the docstring of
  \<^verbatim>\<open>Surface.ctrlpts\<close> promises (the \<open>v\<close> index varies first):
  \<^verbatim>\<open>ctrlpts[j + i * size_v] == ctrlpts2d[i][j]\<close>.
\<close>

definition flat_consistent :: "surface \<Rightarrow> bool" where
  "flat_consistent s =
     list_all (\<lambda>i. list_all (\<lambda>j.
         py_get (s_control_points s) (j + i * control_points_size_v s)
           = py_get2 (control_points2D s) i j)
       (py_range 0 (control_points_size_v s)))
     (py_range 0 (control_points_size_u s))"

text \<open>A surface of degree 1 by 2 on a grid of 2 by 3 control points \<open>(i, j, 0)\<close>.\<close>

definition grid23 :: surface where
  "grid23 =
     \<lparr>degree_u = 1, degree_v = 2,
      knot_vector_u = [0, 0, 1, 1], knot_vector_v = [0, 0, 0, 1, 1, 1],
      s_control_points = [[0,0,0], [0,1,0], [0,2,0], [1,0,0], [1,1,0], [1,2,0]],
      control_points2D = [[[0,0,0], [0,1,0], [0,2,0]], [[1,0,0], [1,1,0], [1,2,0]]],
      control_points_size_u = 2, control_points_size_v = 3,
      s_delta = 1/10, surface_points = [[0,0,0]], s_dimension = 3\<rparr>"

section \<open>Example instances\<close>

text \<open>
  The bilinear unit square of the specification: degree 1 by 1, four control points.
\<close>

definition bilinear :: surface where
  "bilinear =
     \<lparr>degree_u = 1, degree_v = 1,
      knot_vector_u = [0, 0, 1, 1], knot_vector_v = [0, 0, 1, 1],
      s_control_points = [[0,0,0], [0,1,0], [1,0,0], [1,1,0]],
      control_points2D = [[[0,0,0], [0,1,0]], [[1,0,0], [1,1,0]]],
      control_points_size_u = 2, control_points_size_v = 2,
      s_delta = 1/2, surface_points = [], s_dimension = 3\<rparr>"

text \<open>A surface of degree 2 by 1 on a grid of 3 by 2 control points.\<close>

definition quad32 :: surface where
  "quad32 =
     \<lparr>degree_u = 2, degree_v = 1,
      knot_vector_u = [0, 0, 0, 1, 1, 1], knot_vector_v = [0, 0, 1, 1],
      s_control_points = [[0,0,0], [0,1,0], [1,0,2], [1,1,2], [3,0,0], [3,1,0]],
      control_points2D = [[[0,0,0], [0,1,0]], [[1,0,2], [1,1,2]], [[3,0,0], [3,1,0]]],
      control_points_size_u = 3, control_points_size_v = 2,
      s_delta = 1/2, surface_points = [], s_dimension = 3\<rparr>"

text \<open>
  A surface of degree 1 by 1 on 3 by 2 control points, with the interior knot \<open>1/2\<close> in
  the \<open>u\<close> direction (multiplicity 1, the degree).
\<close>

definition lin32 :: surface where
  "lin32 =
     \<lparr>degree_u = 1, degree_v = 1,
      knot_vector_u = [0, 0, 1/2, 1, 1], knot_vector_v = [0, 0, 1, 1],
      s_control_points = [[0,0,0], [0,1,0], [1,0,2], [1,1,2], [3,0,0], [3,1,0]],
      control_points2D = [[[0,0,0], [0,1,0]], [[1,0,2], [1,1,2]], [[3,0,0], [3,1,0]]],
      control_points_size_u = 3, control_points_size_v = 2,
      s_delta = 1/2, surface_points = [], s_dimension = 3\<rparr>"

text \<open>A surface as \<^verbatim>\<open>Surface()\<close> creates it.\<close>

definition new_surface :: surface where
  "new_surface =
     \<lparr>degree_u = 0, degree_v = 0, knot_vector_u = [], knot_vector_v = [],
      s_control_points = [], control_points2D = [],
      control_points_size_u = 0, control_points_size_v = 0,
      s_delta = 1/10, surface_points = [], s_dimension = 3\<rparr>"

text \<open>
  The curve of the specification's scenario: degree 2, knot vector
  \<open>[0,0,0,0.5,1,1,1]\<close>, planar control points \<open>(0,0), (1,2), (3,2), (4,0)\<close>
  (a \<^verbatim>\<open>Curve2D\<close>), and a curve as \<^verbatim>\<open>Curve()\<close> creates it.
\<close>

definition scenario_curve :: curve where
  "scenario_curve =
     \<lparr>degree = 2, knot_vector = [0, 0, 0, 1/2, 1, 1, 1],
      control_points = [[0,0], [1,2], [3,2], [4,0]],
      delta = 1/10, curve_points = [], dimension = 2\<rparr>"

definition new_curve :: curve where
  "new_curve =
     \<lparr>degree = 0, knot_vector = [], control_points = [],
      delta = 1/10, curve_points = [], dimension = 3\<rparr>"

text \<open>The bilinear square after \<^verbatim>\<open>evaluate()\<close> with \<open>delta = 1/2\<close>: nine points.\<close>

definition bilinear_evaluated :: surface where
  "bilinear_evaluated =
     bilinear\<lparr>surface_points :=
       [[0, 0, 0], [0, 1/2, 0], [0, 1, 0], [1/2, 0, 0], [1/2, 1/2, 0], [1/2, 1, 0],
        [1, 0, 0], [1, 1/2, 0], [1, 1, 0]]\<rparr>"

section \<open>Valid knot vectors\<close>

text \<open>
  The data-model invariants on a degree \<open>p\<close>, a knot vector and a number \<open>n\<close> of control
  points: \<open>n \<ge> p + 1\<close>, \<open>n + p + 1\<close> knots, in non-decreasing order.
\<close>

definition knots_ok :: "int \<Rightarrow> real list \<Rightarrow> int \<Rightarrow> bool" where
  "knots_ok p kv n = (0 \<le> p \<and> p + 1 \<le> n \<and> int (length kv) = n + p + 1 \<and> sorted kv)"

text \<open>
  The parameters at which a span exists: \<open>u\<close> lies in \<open>[kv[p], kv[n])\<close>, or \<open>u\<close> is \<open>1.0\<close>
  and the span below the upper boundary is not empty.
\<close>

definition in_domain :: "int \<Rightarrow> real list \<Rightarrow> int \<Rightarrow> real \<Rightarrow> bool" where
  "in_domain p kv n u =
     (if u = 1 then kv ! nat (n - 1) < kv ! nat n
      else kv ! nat p \<le> u \<and> u < kv ! nat n)"

text \<open>
  A clamped knot vector on \<open>[0,1]\<close>: the first knot \<open>0\<close> and the last knot \<open>1\<close> are each
  repeated \<open>p + 1\<close> times, no more.
\<close>

definition clamped :: "int \<Rightarrow> real list \<Rightarrow> int \<Rightarrow> bool" where
  "clamped p kv n =
     (knots_ok p kv n
      \<and> take (nat (p + 1)) kv = replicate (nat (p + 1)) 0
      \<and> drop (nat n) kv = replicate (nat (p + 1)) 1
      \<and> 0 < kv ! nat (p + 1) \<and> kv ! nat (n - 1) < 1)"

text \<open>
  A valid curve: the degree is set, the knot vector fits the control points, and every
  control point has \<open>dimension\<close> coordinates.
\<close>

definition valid_curve :: "curve \<Rightarrow> bool" where
  "valid_curve c =
     (degree c \<noteq> 0
      \<and> knots_ok (degree c) (knot_vector c) (int (length (control_points c)))
      \<and> list_all (\<lambda>P. int (length P) = dimension c) (control_points c))"

text \<open>The scenario curve with all four control points at \<open>(3, 7)\<close>.\<close>

definition constant_curve :: curve where
  "constant_curve = scenario_curve\<lparr>control_points := [[3,7], [3,7], [3,7], [3,7]]\<rparr>"

text \<open>
  Two more curves that satisfy the data-model invariants (four control points, degree
  \<open>2\<close>, seven non-decreasing knots from \<open>0\<close> to \<open>1\<close>). The knot vector of the first is
  not clamped: its spans cover \<open>[1/5, 7/10)\<close> only. The last knot of the second is
  repeated \<open>degree + 2\<close> times, so the span below the upper boundary is empty.
\<close>

definition unclamped_curve :: curve where
  "unclamped_curve = constant_curve\<lparr>knot_vector := [0, 1/10, 1/5, 1/2, 7/10, 9/10, 1]\<rparr>"

definition overclamped_curve :: curve where
  "overclamped_curve = constant_curve\<lparr>knot_vector := [0, 0, 0, 1, 1, 1, 1]\<rparr>"

text \<open>A table of \<open>rows\<close> lists of \<open>cols\<close> cells each.\<close>

definition shape :: "'a list list \<Rightarrow> nat \<Rightarrow> nat \<Rightarrow> bool" where
  "shape g rows cols = (length g = rows \<and> (\<forall>i < rows. length (g ! i) = cols))"

section \<open>The B-spline basis in closed form\<close>

text \<open>
  The quantities the triangular tables hold, as functions of the knot vector \<open>kv\<close>, the
  span \<open>i\<close> and the parameter \<open>u\<close>. \<open>kd d r\<close> is the knot difference
  \<open>kv[i+r+1] - kv[i+r+1-d]\<close>, the denominator of the Cox--de Boor recurrence; \<open>Bf d r\<close>
  is the value at \<open>u\<close> of the basis function number \<open>r\<close> (of the \<open>d + 1\<close> nonzero ones)
  of degree \<open>d\<close>.
\<close>

definition kd :: "real list \<Rightarrow> int \<Rightarrow> nat \<Rightarrow> nat \<Rightarrow> real" where
  "kd kv i d r = kv ! nat (i + int r + 1) - kv ! nat (i + int r + 1 - int d)"

fun Bf :: "real list \<Rightarrow> int \<Rightarrow> real \<Rightarrow> nat \<Rightarrow> nat \<Rightarrow> real" where
  "Bf kv i u 0 r = (if r = 0 then 1 else 0)"
| "Bf kv i u (Suc d) r =
     (if r = 0 then 0
      else (u - kv ! nat (i + int r - int d - 1)) * (Bf kv i u d (r - 1) / kd kv i (Suc d) (r - 1)))
     + (if r \<le> d then (kv ! nat (i + int r + 1) - u) * (Bf kv i u d r / kd kv i (Suc d) r)
        else 0)"

text \<open>
  The coefficients of the derivative formula (2.10) of the NURBS book: the derivative
  of order \<open>k\<close> of the basis function \<open>r\<close> of degree \<open>p\<close> is \<open>p! / (p - k)!\<close> times the sum
  over \<open>x = 0..k\<close> of \<open>Acf r k x\<close> times the basis function \<open>r - k + x\<close> of degree \<open>p - k\<close>.
  \<open>ff p k\<close> is the falling factorial \<open>p (p - 1) ... (p - k + 1)\<close>.
\<close>

fun Acf :: "real list \<Rightarrow> int \<Rightarrow> nat \<Rightarrow> nat \<Rightarrow> nat \<Rightarrow> int \<Rightarrow> real" where
  "Acf kv i p r 0 x = (if x = 0 then 1 else 0)"
| "Acf kv i p r (Suc k) x =
     (if 0 \<le> x \<and> x \<le> int (Suc k) \<and> int (Suc k) \<le> int r + x \<and> int r + x \<le> int p
      then (Acf kv i p r k x - Acf kv i p r k (x - 1))
             / kd kv i (p - k) (nat (int r + x - int (Suc k)))
      else 0)"

fun ff :: "nat \<Rightarrow> nat \<Rightarrow> int" where
  "ff p 0 = 1"
| "ff p (Suc k) = ff p k * (int p - int k)"

definition ders_value :: "real list \<Rightarrow> int \<Rightarrow> real \<Rightarrow> nat \<Rightarrow> nat \<Rightarrow> nat \<Rightarrow> real" where
  "ders_value kv i u p k r =
     real_of_int (ff p k)
       * (\<Sum>x \<le> k. Acf kv i p r k (int x) * Bf kv i u (p - k) (r + x - k))"


text \<open>
  What the table \<open>ndu\<close> of Algorithm A2.3 holds once it is filled: basis values on and
  above the diagonal, knot differences (none of them zero) below it.
\<close>

definition ndu_table :: "real list \<Rightarrow> int \<Rightarrow> real \<Rightarrow> nat \<Rightarrow> real list list \<Rightarrow> bool" where
  "ndu_table kv i u pn ndu =
     (shape ndu (Suc pn) (Suc pn)
      \<and> (\<forall>d r. d \<le> pn \<and> r \<le> d \<longrightarrow> ndu ! r ! d = Bf kv i u d r)
      \<and> (\<forall>d r. 1 \<le> d \<and> d \<le> pn \<and> r < d \<longrightarrow> ndu ! d ! r = kd kv i d r \<and> kd kv i d r \<noteq> 0))"

text \<open>The sum that Algorithm A2.3 accumulates in \<open>d\<close> for \<open>ders[k][r]\<close>.\<close>

definition ders_sum :: "real list \<Rightarrow> int \<Rightarrow> real \<Rightarrow> nat \<Rightarrow> nat \<Rightarrow> nat \<Rightarrow> real" where
  "ders_sum kv i u pn k r =
     (\<Sum>x \<le> k. Acf kv i pn r k (int x) * Bf kv i u (pn - k) (r + x - k))"

section \<open>Evaluation lemmas\<close>

lemma ebind_simps [simp]:
  "ebind (Inl e) f = Inl e"
  "ebind (Inr x) f = f x"
  by (simp_all add: ebind_def)

text \<open>
  A \<^verbatim>\<open>for\<close> loop over \<^verbatim>\<open>range(a, a + n)\<close> is reasoned about through an invariant
  \<open>I k s\<close> on the number \<open>k\<close> of rounds done and the state: \<open>for_loop_total\<close> when every
  round returns, \<open>for_loop_partial\<close> for what holds if the loop returns.
\<close>

lemma ebind_Inr_iff: "ebind m f = Inr y \<longleftrightarrow> (\<exists>x. m = Inr x \<and> f x = Inr y)"
  by (cases m) simp_all

lemma py_range_upt: "py_range a b = map (\<lambda>i. a + int i) [0..<nat (b - a)]"
proof (induction "nat (b - a)" arbitrary: b)
  case 0
  then show ?case by (simp add: py_range_def)
next
  case (Suc n)
  then have n: "n = nat ((b - 1) - a)" and le: "a \<le> b - 1" by linarith+
  have "py_range a b = py_range a (b - 1) @ [b - 1]"
    using le by (simp add: py_range_def upto_rec2)
  also have "py_range a (b - 1) = map (\<lambda>i. a + int i) [0..<n]"
    using Suc.hyps(1) [OF n] n by simp
  finally show ?case using Suc.hyps(2) [symmetric] n le by simp
qed

lemma py_range_empty [simp]: "b \<le> a \<Longrightarrow> py_range a b = []"
  by (simp add: py_range_def)

lemma ebind_Inr_right [simp]: "ebind m Inr = m"
  by (cases m) simp_all

lemma for_loop_Nil_eta [simp]: "for_loop [] body = Inr"
  by (rule ext) simp

lemma for_loop_single_eta [simp]: "for_loop [x] body = body x"
  by (rule ext) simp

lemma py_range_nat: "py_range a (a + int n) = map (\<lambda>i. a + int i) [0..<n]"
  by (simp add: py_range_upt)

lemma for_loop_append:
  "for_loop (xs @ ys) body s = ebind (for_loop xs body s) (for_loop ys body)"
proof (induction xs arbitrary: s)
  case Nil
  show ?case by simp
next
  case (Cons x xs)
  show ?case by (cases "body x s") (simp_all add: Cons.IH)
qed

lemma for_loop_range_Suc:
  "for_loop (py_range a (a + int (Suc n))) body s =
     ebind (for_loop (py_range a (a + int n)) body s) (body (a + int n))"
proof -
  have "py_range a (a + int (Suc n)) = py_range a (a + int n) @ [a + int n]"
    unfolding py_range_nat by simp
  then show ?thesis
    by (simp del: of_nat_Suc add: for_loop_append)
qed


lemma for_loop_total:
  assumes "I 0 s0"
    and "\<And>k s. k < n \<Longrightarrow> I k s \<Longrightarrow> \<exists>s'. body (a + int k) s = Inr s' \<and> I (Suc k) s'"
  shows "\<exists>s'. for_loop (py_range a (a + int n)) body s0 = Inr s' \<and> I n s'"
  using assms(2)
proof (induction n)
  case 0
  show ?case using assms(1) by simp
next
  case (Suc n)
  then obtain s1 where s1: "for_loop (py_range a (a + int n)) body s0 = Inr s1" "I n s1"
    by (metis less_Suc_eq)
  from Suc.prems [of n s1] s1(2) obtain s2 where "body (a + int n) s1 = Inr s2" "I (Suc n) s2"
    by auto
  then show ?case using s1 by (simp del: of_nat_Suc add: for_loop_range_Suc)
qed

lemma for_loop_partial:
  assumes "for_loop (py_range a (a + int n)) body s0 = Inr s'"
    and "I 0 s0"
    and "\<And>k s t. k < n \<Longrightarrow> I k s \<Longrightarrow> body (a + int k) s = Inr t \<Longrightarrow> I (Suc k) t"
  shows "I n s'"
  using assms(1,3)
proof (induction n arbitrary: s')
  case 0
  then show ?case using assms(2) by simp
next
  case (Suc n)
  from Suc.prems(1) obtain s1 where s1: "for_loop (py_range a (a + int n)) body s0 = Inr s1"
      and b: "body (a + int n) s1 = Inr s'"
    by (auto simp del: of_nat_Suc simp add: for_loop_range_Suc ebind_Inr_iff)
  have "I n s1" using Suc.IH [OF s1] Suc.prems(2) by (metis less_Suc_eq)
  then show ?case using Suc.prems(2) [of n s1 s'] b by simp
qed

lemma py_get_nth: "0 \<le> i \<Longrightarrow> i < int (length xs) \<Longrightarrow> py_get xs i = Inr (xs ! nat i)"
  by (simp add: py_get_def py_index_def)

lemma py_div_Inr_iff: "py_div a b = Inr c \<longleftrightarrow> b \<noteq> 0 \<and> c = a / b"
  by (auto simp add: py_div_def)

lemma basis_row_sum:
  "basis_row left right j r saved N = Inr out \<Longrightarrow>
     sum_list out = saved + sum_list N \<and> length out = Suc (length N)"
proof (induction N arbitrary: r saved out)
  case Nil
  then show ?case by auto
next
  case (Cons Nr rest)
  from Cons.prems obtain temp out' where
    t: "py_div Nr (right ! (r + 1) + left ! (j - r)) = Inr temp"
    and o: "basis_row left right j (r + 1) (left ! (j - r) * temp) rest = Inr out'"
    and out: "out = (saved + right ! (r + 1) * temp) # out'"
    by (auto simp add: ebind_Inr_iff)
  from t have d: "right ! (r + 1) + left ! (j - r) \<noteq> 0"
    and temp: "temp = Nr / (right ! (r + 1) + left ! (j - r))"
    by (simp_all add: py_div_Inr_iff)
  from d temp have "right ! (r + 1) * temp + left ! (j - r) * temp = Nr"
    by (simp add: field_simps)
  with Cons.IH [OF o] out show ?case by simp
qed

lemma basis_row_total:
  "(\<And>i. i < length N \<Longrightarrow> right ! (r + i + 1) + left ! (j - (r + i)) \<noteq> 0) \<Longrightarrow>
     \<exists>out. basis_row left right j r saved N = Inr out"
proof (induction N arbitrary: r saved)
  case Nil
  show ?case by simp
next
  case (Cons Nr rest)
  from Cons.prems [of 0] have d: "right ! (r + 1) + left ! (j - r) \<noteq> 0" by simp
  have "\<exists>out. basis_row left right j (r + 1) (left ! (j - r) * (Nr / (right ! (r + 1) + left ! (j - r)))) rest = Inr out"
  proof (rule Cons.IH)
    fix i assume "i < length rest"
    then show "right ! (r + 1 + i + 1) + left ! (j - (r + 1 + i)) \<noteq> 0"
      using Cons.prems [of "Suc i"] by simp
  qed
  then show ?case using d by (auto simp add: py_div_def)
qed

section \<open>Transposition and the flat control-point list\<close>

text \<open>
  Claim C2. After \<^verbatim>\<open>Surface.transpose()\<close> the degrees and the knot vectors are
  swapped, the grid is transposed and the evaluated points are cleared, and the flat
  list should list the new grid with the \<open>v\<close> index varying first. On the surface
  \<open>grid23\<close> (2 by 3 control points, flat list and grid consistent) the method returns
  the surface shown: the grid is transposed to 3 by 2, but the flat list is the old one,
  element for element, and is no longer the \<open>v\<close>-first listing of the grid; for
  instance \<^verbatim>\<open>ctrlpts[1]\<close> is \<open>(0,1,0)\<close> while \<^verbatim>\<open>ctrlpts2d[0][1]\<close> is \<open>(1,0,0)\<close>.
\<close>

theorem transpose_keeps_flat_list:
  "surface_transpose grid23 =
     Inr \<lparr>degree_u = 2, degree_v = 1,
          knot_vector_u = [0, 0, 0, 1, 1, 1], knot_vector_v = [0, 0, 1, 1],
          s_control_points = [[0,0,0], [0,1,0], [0,2,0], [1,0,0], [1,1,0], [1,2,0]],
          control_points2D = [[[0,0,0], [1,0,0]], [[0,1,0], [1,1,0]], [[0,2,0], [1,2,0]]],
          control_points_size_u = 3, control_points_size_v = 2,
          s_delta = 1/10, surface_points = [], s_dimension = 3\<rparr>
   \<and> flat_consistent grid23
   \<and> \<not> flat_consistent
         \<lparr>degree_u = 2, degree_v = 1,
          knot_vector_u = [0, 0, 0, 1, 1, 1], knot_vector_v = [0, 0, 1, 1],
          s_control_points = [[0,0,0], [0,1,0], [0,2,0], [1,0,0], [1,1,0], [1,2,0]],
          control_points2D = [[[0,0,0], [1,0,0]], [[0,1,0], [1,1,0]], [[0,2,0], [1,2,0]]],
          control_points_size_u = 3, control_points_size_v = 2,
          s_delta = 1/10, surface_points = [], s_dimension = 3\<rparr>"
  by code_simp

section \<open>Failing control-point assignments\<close>

text \<open>
  Claim C5. A control-point assignment that validation rejects should leave the stored
  control points as they were. Three rejected calls that do not: the curve setter,
  given three points of which the last has three coordinates on a planar curve, raises
  after it has replaced the four stored points by the first two new ones; the surface
  method, given a point with two coordinates, and given a size \<open>size_u = 1\<close> below
  \<open>degree_u + 1\<close>, raises after it has emptied the flat list and the grid and set both
  sizes to zero.
\<close>

theorem set_ctrlpts_not_atomic:
  "set_ctrlpts scenario_curve [[5,5], [6,6], [7,7,7]]
     = (Some ValueError, scenario_curve\<lparr>control_points := [[5,5], [6,6]]\<rparr>)
   \<and> s_set_ctrlpts bilinear [[0,0,0], [0,1,0], [1,0,0], [1,1]] 2 2
     = (Some ValueError,
        bilinear\<lparr>s_control_points := [], control_points2D := [],
                 control_points_size_u := 0, control_points_size_v := 0\<rparr>)
   \<and> s_set_ctrlpts bilinear [[0,0,0], [0,1,0], [1,0,0], [1,1,0]] 1 4
     = (Some ValueError,
        bilinear\<lparr>s_control_points := [], control_points2D := [],
                 control_points_size_u := 0, control_points_size_v := 0\<rparr>)"
  by code_simp

section \<open>Knot insertion on a surface\<close>

text \<open>
  Claim C3. With both \<open>u\<close> and \<open>v\<close> supplied, a rejected \<open>u\<close> insertion should not
  prevent a valid \<open>v\<close> insertion. On \<open>lin32\<close> the knot \<open>u = 1/2\<close> has multiplicity 1, the
  degree, so one more insertion is rejected; \<open>v = 1/2\<close> is not a knot and \<open>r = 1\<close> is
  within \<open>degree_v\<close>. The call returns the surface untouched, with the warning for the
  \<open>u\<close> direction only: the \<open>v\<close> knot is not inserted. With \<open>u = 1/4\<close>, which is
  accepted, the same \<open>v\<close> and \<open>r\<close> do insert \<open>1/2\<close> into the \<open>v\<close> knot vector.
\<close>

theorem rejected_u_blocks_v:
  "s_insert_knot lin32 (Some (1/2)) (Some (1/2)) 1 = (None, lin32, [CannotInsertU 1])
   \<and> 1 \<le> degree_v lin32 - find_multiplicity (1/2) (knot_vector_v lin32)
   \<and> knot_vector_v (fst (snd (s_insert_knot lin32 (Some (1/4)) (Some (1/2)) 1)))
       = [0, 0, 1/2, 1, 1]"
  by code_simp

text \<open>
  Claim C1. A successful insertion in either direction should leave every surface
  point where it was. Two calls within the multiplicity bound: the insertion of
  \<open>v = 1/2\<close> alone into the bilinear square raises \<^verbatim>\<open>UnboundLocalError\<close> (the \<open>v\<close>
  branch reads \<^verbatim>\<open>k_u\<close>, which only the \<open>u\<close> branch assigns); the insertion of
  \<open>u = 3/10\<close> twice (\<open>r = 2\<close>) into \<open>quad32\<close> returns normally and moves the surface point
  at \<open>(1/4, 1/2)\<close> from \<open>(9/16, 1/2, 3/4)\<close> to \<open>(161/240, 1/2, 49/60)\<close>.
\<close>

theorem insert_knot_changes_surface:
  "s_insert_knot bilinear None (Some (1/2)) 1 = (Some UnboundLocalError, bilinear, [])
   \<and> fst (s_insert_knot quad32 (Some (3/10)) None 2) = None
   \<and> 2 \<le> degree_u quad32 - find_multiplicity (3/10) (knot_vector_u quad32)
   \<and> surfpt quad32 (1/4) (1/2) True = Inr [9/16, 1/2, 3/4]
   \<and> surfpt (fst (snd (s_insert_knot quad32 (Some (3/10)) None 2))) (1/4) (1/2) True
       = Inr [161/240, 1/2, 49/60]"
  by code_simp

section \<open>A rejected knot insertion on a curve\<close>

text \<open>
  Claim C4, as stated: every call \<^verbatim>\<open>insert_knot(u, r)\<close> with
  \<open>r > degree - multiplicity(u)\<close> returns without raising. The checks of the method
  come before the multiplicity test: on a curve whose parameters are not set, and on
  the scenario curve with \<open>u = 3/2\<close>, such a call raises \<^verbatim>\<open>ValueError\<close>.
\<close>

theorem insert_knot_validation_first:
  "insert_knot new_curve (1/2) 1 = (Some ValueError, new_curve, [])
   \<and> 1 > degree new_curve - find_multiplicity (1/2) (knot_vector new_curve)
   \<and> insert_knot scenario_curve (3/2) 3 = (Some ValueError, scenario_curve, [])
   \<and> 3 > degree scenario_curve - find_multiplicity (3/2) (knot_vector scenario_curve)"
  by code_simp

text \<open>
  Claim C4, amended: on a curve whose degree, control points and knot vector are set,
  for \<open>u\<close> in \<open>[0,1]\<close> and \<open>r \<ge> 0\<close> with \<open>r > degree - multiplicity(u)\<close>, the call returns
  without an exception, issues its warning, and leaves the curve as it was: knot
  vector, control points, and evaluated points included.
\<close>

theorem insert_knot_rejected_noop:
  assumes "check_variables c = Inr ()" and "0 \<le> u" and "u \<le> 1" and "0 \<le> r"
    and "r > degree c - find_multiplicity u (knot_vector c)"
  shows "insert_knot c u r = (None, c, [CannotInsert r])"
  using assms by (simp add: insert_knot_def check_uv_def Let_def)

theorem insert_knot_rejected_noop_witness:
  "check_variables scenario_curve = Inr () \<and> (0::real) \<le> 1/2 \<and> (1/2::real) \<le> 1
   \<and> (0::int) \<le> 2
   \<and> 2 > degree scenario_curve - find_multiplicity (1/2) (knot_vector scenario_curve)
   \<and> insert_knot scenario_curve (1/2) 2 = (None, scenario_curve, [CannotInsert 2])"
proof -
  have h1: "check_variables scenario_curve = Inr ()" by code_simp
  have h2: "2 > degree scenario_curve - find_multiplicity (1/2) (knot_vector scenario_curve)"
    by code_simp
  show ?thesis
    using h1 h2 insert_knot_rejected_noop [OF h1 _ _ _ h2] by simp
qed

section \<open>Directions selected by truth value\<close>

lemma truthy_simps: "truthy None = False" "truthy (Some 0) = False"
  by (simp_all add: truthy_def)

lemma check_uv_zero:
  "check_uv (Some 0) v = check_uv None v"
  "check_uv u (Some 0) = check_uv u None"
  by (simp_all add: check_uv_def)

lemma branch_u_zero:
  "insert_knot_branch_u s (Some 0) r = (None, s, [], True, None, None)"
  "insert_knot_branch_u s None r = (None, s, [], True, None, None)"
  by (simp_all add: insert_knot_branch_u_def truthy_simps)

lemma branch_v_zero:
  "insert_knot_branch_v s (Some 0) r c k L = (None, s, [])"
  "insert_knot_branch_v s None r c k L = (None, s, [])"
  by (simp_all add: insert_knot_branch_v_def truthy_simps)

lemma insert_knot_u_zero: "s_insert_knot s (Some 0) v r = s_insert_knot s None v r"
  by (simp add: s_insert_knot_def truthy_simps check_uv_zero branch_u_zero)

lemma insert_knot_v_zero: "s_insert_knot s u (Some 0) r = s_insert_knot s u None r"
  by (simp add: s_insert_knot_def truthy_simps check_uv_zero branch_v_zero
      split: prod.splits option.splits)

lemma insert_knot_none_none:
  assumes "s_check_variables s = Inr ()" and "0 \<le> r"
    and "surface_points s = [] \<or> s_evaluate s = (None, s)"
  shows "s_insert_knot s None None r = (None, s, [])"
  using assms by (auto simp add: s_insert_knot_def truthy_simps branch_u_zero branch_v_zero)

text \<open>
  Claim C10, as stated: on every surface a call with \<open>u = None\<close> and \<open>v = None\<close>
  returns with the surface unchanged. On a surface whose parameters are not set the
  call raises \<^verbatim>\<open>ValueError\<close>: \<^verbatim>\<open>_check_variables\<close> runs first.
\<close>

theorem insert_knot_none_unconfigured:
  "s_insert_knot new_surface None None 1 = (Some ValueError, new_surface, [])"
  by code_simp

text \<open>
  Claim C10, amended. The directions are selected by the truth value of \<open>u\<close> and \<open>v\<close>:
  on every surface a call with \<open>u = 0.0\<close> does exactly what the call without \<open>u\<close> does,
  and likewise for \<open>v\<close>; the branch of a direction given as \<open>0.0\<close> raises nothing, warns
  of nothing and leaves the surface as it is. A call with neither \<open>u\<close> nor \<open>v\<close>, on a
  surface that passes \<^verbatim>\<open>_check_variables\<close> and with \<open>r \<ge> 0\<close>, checks no parameter and
  returns with the surface unchanged, given that the evaluated points, if there are
  any, are the ones \<^verbatim>\<open>evaluate()\<close> computes (the method evaluates again when the list
  is not empty).
\<close>

theorem insert_knot_truthiness:
  "s_insert_knot s (Some 0) v r = s_insert_knot s None v r
   \<and> s_insert_knot s u (Some 0) r = s_insert_knot s u None r
   \<and> insert_knot_branch_u s (Some 0) r = (None, s, [], True, None, None)
   \<and> insert_knot_branch_v s (Some 0) r can_insert_knot k_u L = (None, s, [])
   \<and> (s_check_variables s = Inr () \<and> 0 \<le> r
        \<and> (surface_points s = [] \<or> s_evaluate s = (None, s))
      \<longrightarrow> s_insert_knot s None None r = (None, s, []))"
  using insert_knot_u_zero insert_knot_v_zero branch_u_zero(1) branch_v_zero(1)
    insert_knot_none_none by blast

theorem insert_knot_truthiness_witness:
  "s_check_variables bilinear_evaluated = Inr () \<and> (0::int) \<le> 1
   \<and> s_evaluate bilinear_evaluated = (None, bilinear_evaluated)
   \<and> s_insert_knot bilinear_evaluated None None 1 = (None, bilinear_evaluated, [])"
proof -
  have h1: "s_check_variables bilinear_evaluated = Inr ()" by code_simp
  have h2: "s_evaluate bilinear_evaluated = (None, bilinear_evaluated)" by code_simp
  show ?thesis
    using h1 h2 insert_knot_truthiness [of bilinear_evaluated None 1 None True None None]
    by simp
qed

section \<open>Basis functions\<close>

lemma basis_functions_sum:
  assumes "basis_functions deg kv spn u = Inr N"
  shows "sum_list N = 1 \<and> length N = Suc (nat deg)"
proof -
  define body where "body = (\<lambda>j (N, left, right).
             ebind (py_get kv (spn + 1 - j)) (\<lambda>a. ebind (py_get kv (spn + j)) (\<lambda>b.
               let left' = left @ [u - a]; right' = right @ [b - u]
               in ebind (basis_row left' right' (nat j) 0 0 N) (\<lambda>N'. Inr (N', left', right')))))"
  define n where "n = nat deg"
  have rng: "py_range 1 (deg + 1) = py_range 1 (1 + int n)"
    by (cases "0 \<le> deg") (simp_all add: n_def add.commute)
  from assms obtain st where st: "for_loop (py_range 1 (1 + int n)) body ([1], [0], [0]) = Inr st"
    and N: "N = fst st"
    unfolding basis_functions_def body_def [symmetric] rng
    by (auto simp add: ebind_Inr_iff split: prod.splits)
  define I where "I = (\<lambda>k (st :: real list \<times> real list \<times> real list).
      sum_list (fst st) = 1 \<and> length (fst st) = Suc k)"
  have "I n st"
  proof (rule for_loop_partial [OF st])
    show "I 0 ([1], [0], [0])" by (simp add: I_def)
  next
    fix k s t
    assume "k < n" and Ik: "I k s" and b: "body (1 + int k) s = Inr t"
    obtain N0 l0 r0 where s: "s = (N0, l0, r0)" by (cases s)
    from b obtain l1 r1 where "basis_row l1 r1 (nat (1 + int k)) 0 0 N0 = Inr (fst t)"
      unfolding body_def s by (auto simp add: ebind_Inr_iff Let_def)
    from basis_row_sum [OF this] Ik show "I (Suc k) t" by (simp add: I_def s)
  qed
  then show ?thesis by (simp add: I_def N n_def)
qed

lemma span_scan_total:
  assumes "kv ! nat p \<le> u" and "u < kv ! nat (p + int m)" and "0 \<le> p"
    and "p + int m < int (length kv)"
  shows "\<exists>k. span_scan kv u (py_range p (p + int m)) = Inr k \<and> p \<le> k \<and> k < p + int m
            \<and> kv ! nat k \<le> u \<and> u < kv ! nat (k + 1)"
  using assms
proof (induction m arbitrary: p)
  case 0
  then show ?case by simp
next
  case (Suc m)
  have rng: "py_range p (p + int (Suc m)) = p # py_range (p + 1) (p + 1 + int m)"
    by (simp add: py_range_def upto_rec1)
  have g1: "py_get kv p = Inr (kv ! nat p)" and g2: "py_get kv (p + 1) = Inr (kv ! nat (p + 1))"
    using Suc.prems by (simp_all add: py_get_nth)
  show ?case
  proof (cases "u < kv ! nat (p + 1)")
    case True
    then show ?thesis using Suc.prems g1 g2 unfolding rng by simp
  next
    case False
    have "\<exists>k. span_scan kv u (py_range (p + 1) (p + 1 + int m)) = Inr k \<and> p + 1 \<le> k
            \<and> k < p + 1 + int m \<and> kv ! nat k \<le> u \<and> u < kv ! nat (k + 1)"
    proof (rule Suc.IH)
      show "kv ! nat (p + 1) \<le> u" using False by simp
      show "u < kv ! nat (p + 1 + int m)" using Suc.prems(2) by (simp add: algebra_simps)
      show "0 \<le> p + 1" using Suc.prems by simp
      show "p + 1 + int m < int (length kv)" using Suc.prems by simp
    qed
    then show ?thesis using False g1 g2 unfolding rng by auto
  qed
qed

lemma find_span_total:
  assumes "knots_ok p kv n" and "in_domain p kv n u"
  shows "\<exists>k. find_span p kv n u = Inr k \<and> p \<le> k \<and> k < n \<and> kv ! nat k < kv ! nat (k + 1)
            \<and> (u \<noteq> 1 \<longrightarrow> kv ! nat k \<le> u \<and> u < kv ! nat (k + 1))"
proof (cases "u = 1")
  case True
  then show ?thesis using assms by (simp add: find_span_def knots_ok_def in_domain_def)
next
  case False
  define m where "m = nat (n - p)"
  have n: "n = p + int m" using assms(1) by (simp add: m_def knots_ok_def)
  have "\<exists>k. span_scan kv u (py_range p (p + int m)) = Inr k \<and> p \<le> k \<and> k < p + int m
            \<and> kv ! nat k \<le> u \<and> u < kv ! nat (k + 1)"
    using assms False by (intro span_scan_total) (simp_all add: knots_ok_def in_domain_def n)
  then show ?thesis using False by (auto simp add: find_span_def n)
qed

lemma sorted_nth_le: "sorted (kv :: real list) \<Longrightarrow> i \<le> j \<Longrightarrow> j < length kv \<Longrightarrow> kv ! i \<le> kv ! j"
  by (simp add: sorted_iff_nth_mono)

lemma basis_row_left_zero:
  assumes "\<And>i. i < length N \<Longrightarrow> left ! (j - (r + i)) = 0 \<and> right ! (r + i + 1) \<noteq> 0"
  shows "basis_row left right j r saved N =
           Inr (case N of [] \<Rightarrow> [saved] | x # xs \<Rightarrow> (saved + x) # xs @ [0])"
  using assms
proof (induction N arbitrary: r saved)
  case Nil
  show ?case by simp
next
  case (Cons x xs)
  from Cons.prems [of 0] have l: "left ! (j - r) = 0" and d: "right ! (r + 1) \<noteq> 0" by simp_all
  have "basis_row left right j (r + 1) 0 xs =
           Inr (case xs of [] \<Rightarrow> [0] | y # ys \<Rightarrow> (0 + y) # ys @ [0])"
  proof (rule Cons.IH)
    fix i assume "i < length xs"
    then show "left ! (j - (r + 1 + i)) = 0 \<and> right ! (r + 1 + i + 1) \<noteq> 0"
      using Cons.prems [of "Suc i"] by simp
  qed
  also have "(case xs of [] \<Rightarrow> [0] | y # ys \<Rightarrow> (0 + y) # ys @ [0]) = xs @ [0]"
    by (cases xs) simp_all
  finally show ?case using l d by (simp add: py_div_def)
qed

lemma basis_row_right_zero:
  assumes "\<And>i. i < length N \<Longrightarrow> right ! (r + i + 1) = 0 \<and> left ! (j - (r + i)) \<noteq> 0"
  shows "basis_row left right j r saved N = Inr (saved # N)"
  using assms
proof (induction N arbitrary: r saved)
  case Nil
  show ?case by simp
next
  case (Cons x xs)
  from Cons.prems [of 0] have l: "right ! (r + 1) = 0" and d: "left ! (j - r) \<noteq> 0" by simp_all
  have "basis_row left right j (r + 1) x xs = Inr (x # xs)"
  proof (rule Cons.IH)
    fix i assume "i < length xs"
    then show "right ! (r + 1 + i + 1) = 0 \<and> left ! (j - (r + 1 + i)) \<noteq> 0"
      using Cons.prems [of "Suc i"] by simp
  qed
  then show ?case using l d by (simp add: py_div_def)
qed

text \<open>The round \<open>j\<close> of the outer loop of \<open>basis_functions\<close>, as a function.\<close>

lemma basis_functions_loop:
  "basis_functions p kv k u =
     ebind (for_loop (py_range 1 (1 + int (nat p)))
        (\<lambda>j (N, left, right).
             ebind (py_get kv (k + 1 - j)) (\<lambda>a. ebind (py_get kv (k + j)) (\<lambda>b.
               let left' = left @ [u - a]; right' = right @ [b - u]
               in ebind (basis_row left' right' (nat j) 0 0 N) (\<lambda>N'. Inr (N', left', right')))))
        ([1], [0], [0])) (\<lambda>st. Inr (fst st))"
proof -
  have "py_range 1 (p + 1) = py_range 1 (1 + int (nat p))"
    by (cases "0 \<le> p") (simp_all add: add.commute)
  then show ?thesis
    by (simp add: basis_functions_def case_prod_unfold)
qed

lemma basis_round:
  assumes ok: "knots_ok p kv n" and k: "p \<le> k" "k < n" and j: "j < nat p"
    and len: "length left = Suc j" "length right = Suc j"
  shows "py_get kv (k + 1 - (1 + int j)) = Inr (kv ! nat (k - int j))"
    and "py_get kv (k + (1 + int j)) = Inr (kv ! nat (k + 1 + int j))"
  using assms by (simp_all add: py_get_nth knots_ok_def algebra_simps)

lemma basis_functions_total:
  assumes ok: "knots_ok p kv n" and k: "p \<le> k" "k < n"
    and span: "kv ! nat k < kv ! nat (k + 1)"
  shows "\<exists>N. basis_functions p kv k u = Inr N"
proof -
  define I where "I = (\<lambda>j (st :: real list \<times> real list \<times> real list).
      case st of (N, left, right) \<Rightarrow>
        length N = Suc j \<and> length left = Suc j \<and> length right = Suc j
        \<and> (\<forall>i. 1 \<le> i \<and> i \<le> j \<longrightarrow>
              left ! i = u - kv ! nat (k + 1 - int i) \<and> right ! i = kv ! nat (k + int i) - u))"
  have srt: "sorted kv" and lenkv: "int (length kv) = n + p + 1" and p0: "0 \<le> p"
    using ok by (simp_all add: knots_ok_def)
  have "\<exists>st. for_loop (py_range 1 (1 + int (nat p)))
        (\<lambda>j (N, left, right).
             ebind (py_get kv (k + 1 - j)) (\<lambda>a. ebind (py_get kv (k + j)) (\<lambda>b.
               let left' = left @ [u - a]; right' = right @ [b - u]
               in ebind (basis_row left' right' (nat j) 0 0 N) (\<lambda>N'. Inr (N', left', right')))))
        ([1], [0], [0]) = Inr st \<and> I (nat p) st"
  proof (rule for_loop_total)
    show "I 0 ([1], [0], [0])" by (simp add: I_def)
  next
    fix j st
    assume j: "j < nat p" and Ij: "I j st"
    obtain N left right where st: "st = (N, left, right)" by (cases st)
    from Ij have len: "length N = Suc j" "length left = Suc j" "length right = Suc j"
      and vals: "\<And>i. 1 \<le> i \<Longrightarrow> i \<le> j \<Longrightarrow>
         left ! i = u - kv ! nat (k + 1 - int i) \<and> right ! i = kv ! nat (k + int i) - u"
      by (simp_all add: I_def st)
    define left' where "left' = left @ [u - kv ! nat (k - int j)]"
    define right' where "right' = right @ [kv ! nat (k + 1 + int j) - u]"
    have vals': "left' ! i = u - kv ! nat (k + 1 - int i) \<and> right' ! i = kv ! nat (k + int i) - u"
      if "1 \<le> i" "i \<le> Suc j" for i
    proof (cases "i = Suc j")
      case True
      then show ?thesis using len by (simp add: left'_def right'_def nth_append algebra_simps)
    next
      case False
      then show ?thesis using that len vals [of i] by (simp add: left'_def right'_def nth_append)
    qed
    have "\<exists>out. basis_row left' right' (Suc j) 0 0 N = Inr out"
    proof (rule basis_row_total)
      fix i assume i: "i < length N"
      then have ij: "i \<le> j" using len by simp
      have a: "right' ! (0 + i + 1) = kv ! nat (k + 1 + int i) - u"
        using vals' [of "Suc i"] ij by (simp add: algebra_simps)
      have b: "left' ! (Suc j - (0 + i)) = u - kv ! nat (k - int j + int i)"
        using vals' [of "Suc j - i"] ij by (simp add: algebra_simps of_nat_diff)
      have "kv ! nat (k - int j + int i) \<le> kv ! nat k"
        using srt ij k j lenkv p0 by (intro sorted_nth_le) simp_all
      moreover have "kv ! nat (k + 1) \<le> kv ! nat (k + 1 + int i)"
        using srt ij k j lenkv p0 by (intro sorted_nth_le) simp_all
      ultimately show "right' ! (0 + i + 1) + left' ! (Suc j - (0 + i)) \<noteq> 0"
        using span a b by simp
    qed
    then obtain out where out: "basis_row left' right' (Suc j) 0 0 N = Inr out" ..
    from basis_row_sum [OF out] len have lo: "length out = Suc (Suc j)" by simp
    have "I (Suc j) (out, left', right')"
      using lo len vals' by (simp add: I_def left'_def right'_def)
    moreover have "nat (1 + int j) = Suc j" by simp
    ultimately show "\<exists>s'. (case st of (N, left, right) \<Rightarrow>
             ebind (py_get kv (k + 1 - (1 + int j))) (\<lambda>a. ebind (py_get kv (k + (1 + int j))) (\<lambda>b.
               let left' = left @ [u - a]; right' = right @ [b - u]
               in ebind (basis_row left' right' (nat (1 + int j)) 0 0 N) (\<lambda>N'. Inr (N', left', right'))))) = Inr s'
          \<and> I (Suc j) s'"
      using out basis_round [OF ok k j len(2,3)]
      by (simp add: st Let_def left'_def right'_def del: of_nat_Suc)
  qed
  then show ?thesis by (auto simp add: basis_functions_loop)
qed

lemma basis_functions_left_end:
  assumes ok: "knots_ok p kv n" and k: "p \<le> k" "k < n"
    and left0: "\<And>i. 1 \<le> i \<Longrightarrow> i \<le> nat p \<Longrightarrow> kv ! nat (k + 1 - int i) = u"
    and span: "u < kv ! nat (k + 1)"
  shows "basis_functions p kv k u = Inr (1 # replicate (nat p) 0)"
proof -
  define I where "I = (\<lambda>j (st :: real list \<times> real list \<times> real list).
      case st of (N, left, right) \<Rightarrow>
        N = 1 # replicate j 0 \<and> length left = Suc j \<and> length right = Suc j
        \<and> (\<forall>i. 1 \<le> i \<and> i \<le> j \<longrightarrow> left ! i = 0 \<and> right ! i = kv ! nat (k + int i) - u))"
  have srt: "sorted kv" and lenkv: "int (length kv) = n + p + 1" and p0: "0 \<le> p"
    using ok by (simp_all add: knots_ok_def)
  have "\<exists>st. for_loop (py_range 1 (1 + int (nat p)))
        (\<lambda>j (N, left, right).
             ebind (py_get kv (k + 1 - j)) (\<lambda>a. ebind (py_get kv (k + j)) (\<lambda>b.
               let left' = left @ [u - a]; right' = right @ [b - u]
               in ebind (basis_row left' right' (nat j) 0 0 N) (\<lambda>N'. Inr (N', left', right')))))
        ([1], [0], [0]) = Inr st \<and> I (nat p) st"
  proof (rule for_loop_total)
    show "I 0 ([1], [0], [0])" by (simp add: I_def)
  next
    fix j st
    assume j: "j < nat p" and Ij: "I j st"
    obtain N left right where st: "st = (N, left, right)" by (cases st)
    from Ij have N: "N = 1 # replicate j 0"
      and len: "length left = Suc j" "length right = Suc j"
      and vals: "\<And>i. 1 \<le> i \<Longrightarrow> i \<le> j \<Longrightarrow> left ! i = 0 \<and> right ! i = kv ! nat (k + int i) - u"
      by (simp_all add: I_def st)
    define left' where "left' = left @ [u - kv ! nat (k - int j)]"
    define right' where "right' = right @ [kv ! nat (k + 1 + int j) - u]"
    have "kv ! nat (k - int j) = u" using left0 [of "Suc j"] j by (simp add: algebra_simps)
    then have vals': "left' ! i = 0 \<and> right' ! i = kv ! nat (k + int i) - u"
      if "1 \<le> i" "i \<le> Suc j" for i
      using that len vals [of i]
      by (cases "i = Suc j") (simp_all add: left'_def right'_def nth_append algebra_simps)
    have "basis_row left' right' (Suc j) 0 0 N =
            Inr (case N of [] \<Rightarrow> [0] | x # xs \<Rightarrow> (0 + x) # xs @ [0])"
    proof (rule basis_row_left_zero)
      fix i assume i: "i < length N"
      then have ij: "i \<le> j" using N by simp
      have a: "right' ! (0 + i + 1) = kv ! nat (k + 1 + int i) - u"
        using vals' [of "Suc i"] ij by (simp add: algebra_simps)
      have b: "left' ! (Suc j - (0 + i)) = 0"
        using vals' [of "Suc j - i"] ij by simp
      have "kv ! nat (k + 1) \<le> kv ! nat (k + 1 + int i)"
        using srt ij k j lenkv p0 by (intro sorted_nth_le) simp_all
      then show "left' ! (Suc j - (0 + i)) = 0 \<and> right' ! (0 + i + 1) \<noteq> 0"
        using a b span by simp
    qed
    then have out: "basis_row left' right' (Suc j) 0 0 N = Inr (1 # replicate (Suc j) 0)"
      by (simp add: N replicate_append_same)
    have "I (Suc j) (1 # replicate (Suc j) 0, left', right')"
      using len vals' by (simp add: I_def left'_def right'_def)
    moreover have "nat (1 + int j) = Suc j" by simp
    ultimately show "\<exists>s'. (case st of (N, left, right) \<Rightarrow>
             ebind (py_get kv (k + 1 - (1 + int j))) (\<lambda>a. ebind (py_get kv (k + (1 + int j))) (\<lambda>b.
               let left' = left @ [u - a]; right' = right @ [b - u]
               in ebind (basis_row left' right' (nat (1 + int j)) 0 0 N) (\<lambda>N'. Inr (N', left', right'))))) = Inr s'
          \<and> I (Suc j) s'"
      using out basis_round [OF ok k j len]
      by (simp add: st Let_def left'_def right'_def del: of_nat_Suc)
  qed
  then show ?thesis by (auto simp add: basis_functions_loop I_def)
qed

lemma basis_functions_right_end:
  assumes ok: "knots_ok p kv n" and k: "p \<le> k" "k < n"
    and right0: "\<And>i. 1 \<le> i \<Longrightarrow> i \<le> nat p \<Longrightarrow> kv ! nat (k + int i) = u"
    and span: "kv ! nat k < u"
  shows "basis_functions p kv k u = Inr (replicate (nat p) 0 @ [1])"
proof -
  define I where "I = (\<lambda>j (st :: real list \<times> real list \<times> real list).
      case st of (N, left, right) \<Rightarrow>
        N = replicate j 0 @ [1] \<and> length left = Suc j \<and> length right = Suc j
        \<and> (\<forall>i. 1 \<le> i \<and> i \<le> j \<longrightarrow> right ! i = 0 \<and> left ! i = u - kv ! nat (k + 1 - int i)))"
  have srt: "sorted kv" and lenkv: "int (length kv) = n + p + 1" and p0: "0 \<le> p"
    using ok by (simp_all add: knots_ok_def)
  have "\<exists>st. for_loop (py_range 1 (1 + int (nat p)))
        (\<lambda>j (N, left, right).
             ebind (py_get kv (k + 1 - j)) (\<lambda>a. ebind (py_get kv (k + j)) (\<lambda>b.
               let left' = left @ [u - a]; right' = right @ [b - u]
               in ebind (basis_row left' right' (nat j) 0 0 N) (\<lambda>N'. Inr (N', left', right')))))
        ([1], [0], [0]) = Inr st \<and> I (nat p) st"
  proof (rule for_loop_total)
    show "I 0 ([1], [0], [0])" by (simp add: I_def)
  next
    fix j st
    assume j: "j < nat p" and Ij: "I j st"
    obtain N left right where st: "st = (N, left, right)" by (cases st)
    from Ij have N: "N = replicate j 0 @ [1]"
      and len: "length left = Suc j" "length right = Suc j"
      and vals: "\<And>i. 1 \<le> i \<Longrightarrow> i \<le> j \<Longrightarrow> right ! i = 0 \<and> left ! i = u - kv ! nat (k + 1 - int i)"
      by (simp_all add: I_def st)
    define left' where "left' = left @ [u - kv ! nat (k - int j)]"
    define right' where "right' = right @ [kv ! nat (k + 1 + int j) - u]"
    have "kv ! nat (k + 1 + int j) = u" using right0 [of "Suc j"] j by (simp add: algebra_simps)
    then have vals': "right' ! i = 0 \<and> left' ! i = u - kv ! nat (k + 1 - int i)"
      if "1 \<le> i" "i \<le> Suc j" for i
      using that len vals [of i]
      by (cases "i = Suc j") (simp_all add: left'_def right'_def nth_append algebra_simps)
    have out: "basis_row left' right' (Suc j) 0 0 N = Inr (0 # N)"
    proof (rule basis_row_right_zero)
      fix i assume i: "i < length N"
      then have ij: "i \<le> j" using N by simp
      have a: "right' ! (0 + i + 1) = 0"
        using vals' [of "Suc i"] ij by simp
      have b: "left' ! (Suc j - (0 + i)) = u - kv ! nat (k - int j + int i)"
        using vals' [of "Suc j - i"] ij by (simp add: algebra_simps of_nat_diff)
      have "kv ! nat (k - int j + int i) \<le> kv ! nat k"
        using srt ij k j lenkv p0 by (intro sorted_nth_le) simp_all
      then show "right' ! (0 + i + 1) = 0 \<and> left' ! (Suc j - (0 + i)) \<noteq> 0"
        using a b span by simp
    qed
    have "I (Suc j) (0 # N, left', right')"
      using len vals' by (simp add: I_def left'_def right'_def N)
    moreover have "nat (1 + int j) = Suc j" by simp
    ultimately show "\<exists>s'. (case st of (N, left, right) \<Rightarrow>
             ebind (py_get kv (k + 1 - (1 + int j))) (\<lambda>a. ebind (py_get kv (k + (1 + int j))) (\<lambda>b.
               let left' = left @ [u - a]; right' = right @ [b - u]
               in ebind (basis_row left' right' (nat (1 + int j)) 0 0 N) (\<lambda>N'. Inr (N', left', right'))))) = Inr s'
          \<and> I (Suc j) s'"
      using out basis_round [OF ok k j len]
      by (simp add: st Let_def left'_def right'_def del: of_nat_Suc)
  qed
  then show ?thesis by (auto simp add: basis_functions_loop I_def)
qed

section \<open>The value of \<^verbatim>\<open>curvept\<close>\<close>

lemma py_get_nat: "i < length xs \<Longrightarrow> py_get xs (int i) = Inr (xs ! i)"
  by (simp add: py_get_def py_index_def)

lemma zip_map_upt:
  assumes "length W = d"
  shows "map (\<lambda>(c, x). c + b * x) (zip (map f [0..<d]) W) = map (\<lambda>m. f m + (b::real) * W ! m) [0..<d]"
  using assms by (intro nth_equalityI) simp_all

lemma curvept_value:
  assumes cv: "check_variables c = Inr ()" and u: "0 \<le> u" "u \<le> 1"
    and fs: "find_span (degree c) (knot_vector c) (int (length (control_points c))) u = Inr k"
    and bf: "basis_functions (degree c) (knot_vector c) k u = Inr N"
    and k: "degree c \<le> k" "k < int (length (control_points c))" and p0: "0 \<le> degree c"
    and dim: "\<And>P. P \<in> set (control_points c) \<Longrightarrow> int (length P) = dimension c"
  shows "curvept c u True =
           Inr (map (\<lambda>m. \<Sum>t<length N. N ! t * control_points c ! (nat (k - degree c) + t) ! m)
                  [0..<nat (dimension c)])"
proof -
  define p where "p = degree c"
  define d where "d = nat (dimension c)"
  define W where "W = (\<lambda>t. control_points c ! (nat (k - p) + t))"
  define body where "body = (\<lambda>i cpt.
                 ebind (py_get (control_points c) (k - degree c + i)) (\<lambda>ctrl_pt.
                   if zip cpt ctrl_pt = [] then Inr []
                   else ebind (py_get N i) (\<lambda>b.
                     Inr (map (\<lambda>(curve_pt, x). curve_pt + b * x) (zip cpt ctrl_pt)))))"
  define I where "I = (\<lambda>i (cpt :: point). cpt = map (\<lambda>m. \<Sum>t<i. N ! t * W t ! m) [0..<d])"
  have lenN: "length N = Suc (nat p)" using basis_functions_sum [OF bf] by (simp add: p_def)
  have rng: "py_range 0 (degree c + 1) = py_range 0 (0 + int (Suc (nat p)))"
    using p0 by (simp add: p_def add.commute)
  have "\<exists>cpt. for_loop (py_range 0 (0 + int (Suc (nat p)))) body (replicate d 0) = Inr cpt
          \<and> I (Suc (nat p)) cpt"
  proof (rule for_loop_total)
    show "I 0 (replicate d 0)" by (simp add: I_def map_replicate_const)
  next
    fix i cpt
    assume i: "i < Suc (nat p)" and Ii: "I i cpt"
    have idx: "0 \<le> k - degree c + (0 + int i)" "k - degree c + (0 + int i) < int (length (control_points c))"
      using i k p0 by (simp_all add: p_def)
    have nat_idx: "nat (k - degree c + int i) = nat (k - p) + i"
      using k by (simp add: p_def nat_add_distrib)
    have g: "py_get (control_points c) (k - degree c + (0 + int i)) = Inr (W i)"
      using py_get_nth [OF idx] by (simp add: W_def nat_idx)
    have "W i \<in> set (control_points c)"
      using idx unfolding W_def nat_idx [symmetric] by (intro nth_mem) simp
    then have lenW: "length (W i) = d" using dim [of "W i"] by (simp add: d_def)
    have gN: "py_get N (0 + int i) = Inr (N ! i)"
      using i lenN by (simp add: py_get_nat)
    have cpt: "cpt = map (\<lambda>m. \<Sum>t<i. N ! t * W t ! m) [0..<d]" using Ii by (simp add: I_def)
    show "\<exists>s'. body (0 + int i) cpt = Inr s' \<and> I (Suc i) s'"
    proof (cases "d = 0")
      case True
      then show ?thesis using g cpt by (simp add: body_def I_def)
    next
      case False
      then have nz: "zip cpt (W i) \<noteq> []" using lenW cpt by (cases "W i") auto
      have "map (\<lambda>(c, x). c + N ! i * x) (zip cpt (W i))
              = map (\<lambda>m. (\<Sum>t<i. N ! t * W t ! m) + N ! i * W i ! m) [0..<d]"
        unfolding cpt by (rule zip_map_upt [OF lenW])
      then show ?thesis using g gN nz by (simp add: body_def I_def)
    qed
  qed
  then have "for_loop (py_range 0 (degree c + 1)) body (replicate d 0)
      = Inr (map (\<lambda>m. \<Sum>t<length N. N ! t * W t ! m) [0..<d])"
    unfolding rng by (auto simp add: I_def lenN)
  moreover have "curvept c u True = for_loop (py_range 0 (degree c + 1)) body (replicate d 0)"
    using cv u fs bf by (simp add: curvept_def body_def check_uv_def d_def)
  ultimately show ?thesis
    by (simp add: d_def W_def p_def)
qed

lemma valid_curve_check: "valid_curve c \<Longrightarrow> check_variables c = Inr ()"
  by (auto simp add: valid_curve_def check_variables_def knots_ok_def)

lemma clamped_in_domain:
  assumes "clamped p kv n" and "0 \<le> u" and "u \<le> 1"
  shows "in_domain p kv n u"
proof -
  have ok: "0 \<le> p" "p + 1 \<le> n" "int (length kv) = n + p + 1"
    and t: "take (nat (p + 1)) kv = replicate (nat (p + 1)) 0"
    and d: "drop (nat n) kv = replicate (nat (p + 1)) 1"
    and e: "kv ! nat (n - 1) < 1"
    using assms(1) by (simp_all add: clamped_def knots_ok_def)
  have "kv ! nat p = take (nat (p + 1)) kv ! nat p" using ok by simp
  then have kp: "kv ! nat p = 0" unfolding t using ok by simp
  have "kv ! nat n = drop (nat n) kv ! 0" using ok by simp
  then have kn: "kv ! nat n = 1" unfolding d using ok by simp
  show ?thesis using kp kn e assms(2,3) by (simp add: in_domain_def)
qed

lemma sum_unit_first: "(\<Sum>t<Suc n. (1 # replicate n (0::real)) ! t * f t) = f 0"
proof -
  have "(\<Sum>t<Suc n. (1 # replicate n (0::real)) ! t * f t) = (\<Sum>t<Suc n. if t = 0 then f 0 else 0)"
    by (intro sum.cong) (auto simp add: nth_Cons')
  then show ?thesis by simp
qed

lemma sum_unit_last: "(\<Sum>t<Suc n. (replicate n (0::real) @ [1]) ! t * f t) = f n"
proof -
  have "(\<Sum>t<Suc n. (replicate n (0::real) @ [1]) ! t * f t) = (\<Sum>t<Suc n. if t = n then f n else 0)"
    by (intro sum.cong) (auto simp add: nth_append)
  then show ?thesis by simp
qed

lemma map_nth_upt: "length xs = d \<Longrightarrow> map (\<lambda>m. xs ! m) [0..<d] = xs"
  by (auto simp add: map_nth)

lemma curvept_constant:
  assumes v: "valid_curve c"
    and dom: "in_domain (degree c) (knot_vector c) (int (length (control_points c))) u"
    and u: "0 \<le> u" "u \<le> 1"
    and const: "\<And>Q. Q \<in> set (control_points c) \<Longrightarrow> Q = P"
  shows "curvept c u True = Inr P"
proof -
  define n where "n = int (length (control_points c))"
  have ok: "knots_ok (degree c) (knot_vector c) n"
    and dim: "\<And>Q. Q \<in> set (control_points c) \<Longrightarrow> int (length Q) = dimension c"
    using v by (simp_all add: valid_curve_def n_def list_all_iff)
  from find_span_total [OF ok dom [folded n_def]] obtain k where
    fs: "find_span (degree c) (knot_vector c) n u = Inr k"
    and k: "degree c \<le> k" "k < n" "knot_vector c ! nat k < knot_vector c ! nat (k + 1)"
    by auto
  from basis_functions_total [OF ok k] obtain N where
    bf: "basis_functions (degree c) (knot_vector c) k u = Inr N" by auto
  have sumN: "sum_list N = 1" using basis_functions_sum [OF bf] by simp
  have p0: "0 \<le> degree c" using ok by (simp add: knots_ok_def)
  have ne: "control_points c \<noteq> []" using ok by (auto simp add: knots_ok_def n_def)
  then have "P \<in> set (control_points c)" using const [of "hd (control_points c)"] by auto
  then have lenP: "length P = nat (dimension c)" using dim [of P] by simp
  have W: "control_points c ! (nat (k - degree c) + t) = P" if "t < length N" for t
  proof (rule const, rule nth_mem)
    have "length N = Suc (nat (degree c))" using basis_functions_sum [OF bf] by simp
    then show "nat (k - degree c) + t < length (control_points c)"
      using that k p0 by (simp add: n_def)
  qed
  have "curvept c u True =
           Inr (map (\<lambda>m. \<Sum>t<length N. N ! t * control_points c ! (nat (k - degree c) + t) ! m)
                  [0..<nat (dimension c)])"
    using valid_curve_check [OF v] u fs bf k(1,2) p0 dim
    by (intro curvept_value) (simp_all add: n_def)
  also have "(\<lambda>m. \<Sum>t<length N. N ! t * control_points c ! (nat (k - degree c) + t) ! m)
      = (\<lambda>m. (\<Sum>t<length N. N ! t) * P ! m)"
    by (rule ext) (simp add: W sum_distrib_right)
  also have "(\<Sum>t<length N. N ! t) = sum_list N"
    by (simp add: sum_list_sum_nth atLeast0LessThan)
  finally show ?thesis using sumN lenP by (simp add: map_nth_upt)
qed

section \<open>Partition of unity\<close>

text \<open>
  Claim C7, as stated: for every valid degree and knot vector and every \<open>u\<close> in
  \<open>[0,1]\<close> the basis values at the span found for \<open>u\<close> sum to one, and a curve whose
  control points are all \<open>P\<close> evaluates to \<open>P\<close>. On the knot vector
  \<open>[0, 1/10, 1/5, 1/2, 7/10, 9/10, 1]\<close>, which is valid for degree \<open>2\<close> and four control
  points, no span holds \<open>u = 1/10\<close>: \<open>find_span\<close> fails, and \<^verbatim>\<open>curvept(1/10)\<close> on the
  curve with all control points at \<open>(3, 7)\<close> raises \<^verbatim>\<open>IndexError\<close>. On the knot vector
  \<open>[0, 0, 0, 1, 1, 1, 1]\<close> the span found for \<open>u = 1\<close> is empty: \<open>basis_functions\<close>
  divides by zero there, and so does \<^verbatim>\<open>curvept(1.0)\<close>.
\<close>

theorem partition_of_unity_needs_domain:
  "knots_ok 2 [0, 1/10, 1/5, 1/2, 7/10, 9/10, 1] 4
   \<and> \<not> in_domain 2 [0, 1/10, 1/5, 1/2, 7/10, 9/10, 1] 4 (1/10)
   \<and> find_span 2 [0, 1/10, 1/5, 1/2, 7/10, 9/10, 1] 4 (1/10) = Inl IndexError
   \<and> valid_curve unclamped_curve
   \<and> control_points unclamped_curve = [[3, 7], [3, 7], [3, 7], [3, 7]]
   \<and> curvept unclamped_curve (1/10) True = Inl IndexError
   \<and> knots_ok 2 [0, 0, 0, 1, 1, 1, 1] 4
   \<and> \<not> in_domain 2 [0, 0, 0, 1, 1, 1, 1] 4 1
   \<and> find_span 2 [0, 0, 0, 1, 1, 1, 1] 4 1 = Inr 3
   \<and> basis_functions 2 [0, 0, 0, 1, 1, 1, 1] 3 1 = Inl ZeroDivisionError
   \<and> valid_curve overclamped_curve
   \<and> control_points overclamped_curve = [[3, 7], [3, 7], [3, 7], [3, 7]]
   \<and> curvept overclamped_curve 1 True = Inl ZeroDivisionError"
proof -
  have "knots_ok 2 [0, 1/10, 1/5, 1/2, 7/10, 9/10, 1] 4" by code_simp
  moreover have "\<not> in_domain 2 [0, 1/10, 1/5, 1/2, 7/10, 9/10, 1] 4 (1/10)" by code_simp
  moreover have "find_span 2 [0, 1/10, 1/5, 1/2, 7/10, 9/10, 1] 4 (1/10) = Inl IndexError"
    by code_simp
  moreover have "valid_curve unclamped_curve" by code_simp
  moreover have "control_points unclamped_curve = [[3, 7], [3, 7], [3, 7], [3, 7]]"
    by (simp add: unclamped_curve_def constant_curve_def)
  moreover have "curvept unclamped_curve (1/10) True = Inl IndexError" by code_simp
  moreover have "knots_ok 2 [0, 0, 0, 1, 1, 1, 1] 4" by code_simp
  moreover have "\<not> in_domain 2 [0, 0, 0, 1, 1, 1, 1] 4 1" by code_simp
  moreover have "find_span 2 [0, 0, 0, 1, 1, 1, 1] 4 1 = Inr 3" by code_simp
  moreover have "basis_functions 2 [0, 0, 0, 1, 1, 1, 1] 3 1 = Inl ZeroDivisionError"
    by code_simp
  moreover have "valid_curve overclamped_curve" by code_simp
  moreover have "control_points overclamped_curve = [[3, 7], [3, 7], [3, 7], [3, 7]]"
    by (simp add: overclamped_curve_def constant_curve_def)
  moreover have "curvept overclamped_curve 1 True = Inl ZeroDivisionError" by code_simp
  ultimately show ?thesis by blast
qed

text \<open>
  Claim C7, amended: the parameter is taken in the domain of the knot vector, and the
  arithmetic is exact (floats are real numbers here, so nothing is said of rounding).
  In four parts: whenever \<open>find_span\<close> returns a span and \<open>basis_functions\<close> returns
  values there, the values are \<open>degree + 1\<close> numbers of sum exactly \<open>1\<close>, whatever the
  knot vector; both functions do return when the knot vector is valid and \<open>u\<close> is in its
  domain (\<open>kv[p] \<le> u < kv[n]\<close>, or \<open>u = 1\<close> with \<open>kv[n-1] < kv[n]\<close>); for a clamped knot
  vector the domain is all of \<open>[0,1]\<close>; and \<^verbatim>\<open>curvept(u)\<close>, on a valid curve with
  constant control points \<open>P\<close> and \<open>u\<close> of \<open>[0,1]\<close> in the domain, returns exactly \<open>P\<close>.
\<close>

theorem partition_of_unity:
  "(find_span p kv n u = Inr k \<and> basis_functions p kv k u = Inr N
      \<longrightarrow> sum_list N = 1 \<and> length N = Suc (nat p))
   \<and> (knots_ok p kv n \<and> in_domain p kv n u
      \<longrightarrow> (\<exists>k N. find_span p kv n u = Inr k \<and> basis_functions p kv k u = Inr N))
   \<and> (clamped p kv n \<and> 0 \<le> u \<and> u \<le> 1 \<longrightarrow> in_domain p kv n u)
   \<and> (valid_curve c
       \<and> in_domain (degree c) (knot_vector c) (int (length (control_points c))) u'
       \<and> 0 \<le> u' \<and> u' \<le> 1 \<and> (\<forall>Q \<in> set (control_points c). Q = P)
      \<longrightarrow> curvept c u' True = Inr P)"
proof (intro conjI impI)
  assume "find_span p kv n u = Inr k \<and> basis_functions p kv k u = Inr N"
  then show "sum_list N = 1" "length N = Suc (nat p)"
    using basis_functions_sum [of p kv k u N] by simp_all
next
  assume a: "knots_ok p kv n \<and> in_domain p kv n u"
  then obtain k where "find_span p kv n u = Inr k" "p \<le> k" "k < n"
      "kv ! nat k < kv ! nat (k + 1)"
    using find_span_total [of p kv n u] by auto
  then show "\<exists>k N. find_span p kv n u = Inr k \<and> basis_functions p kv k u = Inr N"
    using basis_functions_total [of p kv n k u] a by auto
next
  assume "clamped p kv n \<and> 0 \<le> u \<and> u \<le> 1"
  then show "in_domain p kv n u" by (simp add: clamped_in_domain)
next
  assume "valid_curve c
       \<and> in_domain (degree c) (knot_vector c) (int (length (control_points c))) u'
       \<and> 0 \<le> u' \<and> u' \<le> 1 \<and> (\<forall>Q \<in> set (control_points c). Q = P)"
  then show "curvept c u' True = Inr P" by (intro curvept_constant) simp_all
qed

theorem partition_of_unity_witness:
  "clamped 2 [0, 0, 0, 1/2, 1, 1, 1] 4 \<and> (0::real) \<le> 1/4 \<and> (1/4::real) \<le> 1
   \<and> knots_ok 2 [0, 0, 0, 1/2, 1, 1, 1] 4
   \<and> in_domain 2 [0, 0, 0, 1/2, 1, 1, 1] 4 (1/4)
   \<and> find_span 2 [0, 0, 0, 1/2, 1, 1, 1] 4 (1/4) = Inr 2
   \<and> basis_functions 2 [0, 0, 0, 1/2, 1, 1, 1] 2 (1/4) = Inr [1/4, 5/8, 1/8]
   \<and> sum_list [1/4, 5/8, 1/8 :: real] = 1
   \<and> valid_curve constant_curve
   \<and> control_points constant_curve = [[3, 7], [3, 7], [3, 7], [3, 7]]
   \<and> curvept constant_curve (1/4) True = Inr [3, 7]"
proof -
  have h1: "clamped 2 [0, 0, 0, 1/2, 1, 1, 1] 4" by code_simp
  have h2: "knots_ok 2 [0, 0, 0, 1/2, 1, 1, 1] 4" by code_simp
  have h3: "find_span 2 [0, 0, 0, 1/2, 1, 1, 1] 4 (1/4) = Inr 2" by code_simp
  have h4: "basis_functions 2 [0, 0, 0, 1/2, 1, 1, 1] 2 (1/4) = Inr [1/4, 5/8, 1/8]" by code_simp
  have h5: "valid_curve constant_curve" by code_simp
  have h6: "\<forall>Q \<in> set (control_points constant_curve). Q = [3, 7]"
    by (simp add: constant_curve_def)
  have h7: "degree constant_curve = 2" "knot_vector constant_curve = [0, 0, 0, 1/2, 1, 1, 1]"
    "int (length (control_points constant_curve)) = 4"
    by (simp_all add: constant_curve_def scenario_curve_def)
  note t = partition_of_unity [of 2 "[0, 0, 0, 1/2, 1, 1, 1]" 4 "1/4" 2 "[1/4, 5/8, 1/8]"
      constant_curve "1/4" "[3, 7]"]
  have d: "in_domain 2 [0, 0, 0, 1/2, 1, 1, 1] 4 (1/4)" using t h1 by simp
  have "sum_list [1/4, 5/8, 1/8 :: real] = 1" using t h3 h4 by blast
  moreover have "curvept constant_curve (1/4) True = Inr [3, 7]"
    using t h5 h6 d unfolding h7 by simp
  moreover have "control_points constant_curve = [[3, 7], [3, 7], [3, 7], [3, 7]]"
    by (simp add: constant_curve_def)
  ultimately show ?thesis using h1 h2 h3 h4 h5 d by simp
qed

section \<open>Endpoint interpolation\<close>

lemma clamped_knots:
  assumes "clamped p kv n"
  shows "\<And>i. i \<le> nat p \<Longrightarrow> kv ! i = 0" and "\<And>i. i \<le> nat p \<Longrightarrow> kv ! (nat n + i) = 1"
proof -
  have ok: "0 \<le> p" "p + 1 \<le> n" "int (length kv) = n + p + 1"
    and t: "take (nat (p + 1)) kv = replicate (nat (p + 1)) 0"
    and d: "drop (nat n) kv = replicate (nat (p + 1)) 1"
    using assms by (simp_all add: clamped_def knots_ok_def)
  show "kv ! i = 0" if "i \<le> nat p" for i
  proof -
    have "kv ! i = take (nat (p + 1)) kv ! i" using that ok by simp
    then show ?thesis unfolding t using that ok by simp
  qed
  show "kv ! (nat n + i) = 1" if "i \<le> nat p" for i
  proof -
    have "kv ! (nat n + i) = drop (nat n) kv ! i" using that ok by simp
    then show ?thesis unfolding d using that ok by simp
  qed
qed

lemma curvept_endpoints:
  assumes v: "valid_curve c"
    and cl: "clamped (degree c) (knot_vector c) (int (length (control_points c)))"
  shows "curvept c 0 True = Inr (hd (control_points c))"
    and "curvept c 1 True = Inr (last (control_points c))"
proof -
  define n where "n = int (length (control_points c))"
  define p where "p = degree c"
  define kv where "kv = knot_vector c"
  have ok: "knots_ok p kv n"
    and dim: "\<And>Q. Q \<in> set (control_points c) \<Longrightarrow> int (length Q) = dimension c"
    using v by (simp_all add: valid_curve_def n_def p_def kv_def list_all_iff)
  have p0: "0 \<le> p" and pn: "p + 1 \<le> n" and lenkv: "int (length kv) = n + p + 1"
    using ok by (simp_all add: knots_ok_def)
  have cl': "clamped p kv n" using cl by (simp add: n_def p_def kv_def)
  have ex: "0 < kv ! nat (p + 1)" "kv ! nat (n - 1) < 1"
    using cl' by (simp_all add: clamped_def)
  note z = clamped_knots [OF cl']
  have ne: "control_points c \<noteq> []" using pn p0 by (auto simp add: n_def)
  have cv: "check_variables c = Inr ()" by (rule valid_curve_check [OF v])
  text \<open>the left end\<close>
  have rng: "py_range p n = p # py_range (p + 1) n"
    using pn by (simp add: py_range_def upto_rec1)
  have "py_get kv p = Inr 0" "py_get kv (p + 1) = Inr (kv ! nat (p + 1))"
    using z(1) [of "nat p"] p0 pn lenkv by (simp_all add: py_get_nth)
  then have fs0: "find_span p kv n 0 = Inr p"
    using ex(1) by (simp add: find_span_def rng)
  have bf0: "basis_functions p kv p 0 = Inr (1 # replicate (nat p) 0)"
  proof (rule basis_functions_left_end [OF ok])
    show "p \<le> p" "p < n" using pn by simp_all
    show "0 < kv ! nat (p + 1)" by (rule ex(1))
    fix i assume "1 \<le> i" "i \<le> nat p"
    then have "nat (p + 1 - int i) \<le> nat p" by simp
    then show "kv ! nat (p + 1 - int i) = 0" by (rule z(1))
  qed
  have hd_in: "hd (control_points c) \<in> set (control_points c)" using ne by simp
  have "curvept c 0 True =
           Inr (map (\<lambda>m. \<Sum>t<length (1 # replicate (nat p) (0::real)).
                    (1 # replicate (nat p) 0) ! t * control_points c ! (nat (p - degree c) + t) ! m)
                  [0..<nat (dimension c)])"
    using cv fs0 bf0 p0 pn dim
    by (intro curvept_value) (simp_all add: n_def p_def kv_def)
  also have "\<dots> = Inr (map (\<lambda>m. control_points c ! 0 ! m) [0..<nat (dimension c)])"
    by (simp add: sum_unit_first p_def del: sum.lessThan_Suc)
  also have "control_points c ! 0 = hd (control_points c)" using ne by (simp add: hd_conv_nth)
  finally show "curvept c 0 True = Inr (hd (control_points c))"
    using dim [OF hd_in] by (simp add: map_nth_upt)
  text \<open>the right end\<close>
  have fs1: "find_span p kv n 1 = Inr (n - 1)" by (simp add: find_span_def)
  have bf1: "basis_functions p kv (n - 1) 1 = Inr (replicate (nat p) 0 @ [1])"
  proof (rule basis_functions_right_end [OF ok])
    show "p \<le> n - 1" "n - 1 < n" using pn by simp_all
    show "kv ! nat (n - 1) < 1" by (rule ex(2))
    fix i assume i: "1 \<le> i" "i \<le> nat p"
    then have "nat (n - 1 + int i) = nat n + (i - 1)" using pn p0 by simp
    then show "kv ! nat (n - 1 + int i) = 1" using z(2) [of "i - 1"] i by simp
  qed
  have last_in: "last (control_points c) \<in> set (control_points c)" using ne by simp
  have idx: "nat (n - 1 - degree c) + nat p = length (control_points c) - 1"
    using pn p0 by (simp add: n_def p_def)
  have "curvept c 1 True =
           Inr (map (\<lambda>m. \<Sum>t<length (replicate (nat p) (0::real) @ [1]).
                    (replicate (nat p) 0 @ [1]) ! t * control_points c ! (nat (n - 1 - degree c) + t) ! m)
                  [0..<nat (dimension c)])"
    using cv fs1 bf1 p0 pn dim
    by (intro curvept_value) (simp_all add: n_def p_def kv_def)
  also have "\<dots> = Inr (map (\<lambda>m. control_points c ! (length (control_points c) - 1) ! m)
                        [0..<nat (dimension c)])"
    by (simp add: sum_unit_last idx del: sum.lessThan_Suc)
  also have "control_points c ! (length (control_points c) - 1) = last (control_points c)"
    using ne by (simp add: last_conv_nth)
  finally show "curvept c 1 True = Inr (last (control_points c))"
    using dim [OF last_in] by (simp add: map_nth_upt)
qed

text \<open>
  Claim C8. On a valid curve with a clamped knot vector, \<^verbatim>\<open>curvept(0.0)\<close> is the
  first control point and \<^verbatim>\<open>curvept(1.0)\<close> is the last one (exactly, floats being
  reals here); on the curve of the scenario these are \<open>(0,0)\<close> and \<open>(4,0)\<close>.
\<close>

theorem endpoint_interpolation:
  "(valid_curve c \<and> clamped (degree c) (knot_vector c) (int (length (control_points c)))
      \<longrightarrow> curvept c 0 True = Inr (hd (control_points c))
        \<and> curvept c 1 True = Inr (last (control_points c)))
   \<and> curvept scenario_curve 0 True = Inr [0, 0]
   \<and> curvept scenario_curve 1 True = Inr [4, 0]"
proof -
  have "curvept scenario_curve 0 True = Inr [0, 0]" by code_simp
  moreover have "curvept scenario_curve 1 True = Inr [4, 0]" by code_simp
  ultimately show ?thesis using curvept_endpoints by blast
qed

theorem endpoint_interpolation_witness:
  "valid_curve scenario_curve
   \<and> clamped (degree scenario_curve) (knot_vector scenario_curve)
       (int (length (control_points scenario_curve)))
   \<and> curvept scenario_curve 0 True = Inr (hd (control_points scenario_curve))
   \<and> curvept scenario_curve 1 True = Inr (last (control_points scenario_curve))"
proof -
  have h1: "valid_curve scenario_curve" by code_simp
  have h2: "clamped (degree scenario_curve) (knot_vector scenario_curve)
       (int (length (control_points scenario_curve)))" by code_simp
  show ?thesis using h1 h2 endpoint_interpolation [of scenario_curve] by blast
qed

section \<open>Derivatives beyond the degree\<close>

lemma py_set_nat: "i < length xs \<Longrightarrow> py_set xs (int i) v = Inr (xs[i := v])"
  by (simp add: py_set_def py_index_def)

lemma py_set_nth: "0 \<le> i \<Longrightarrow> i < int (length xs) \<Longrightarrow> py_set xs i v = Inr (xs[nat i := v])"
  by (simp add: py_set_def py_index_def)

lemma py_get2_nat:
  "i < length g \<Longrightarrow> j < length (g ! i) \<Longrightarrow> py_get2 g (int i) (int j) = Inr (g ! i ! j)"
  by (simp add: py_get2_def py_get_nat)

lemma py_set2_nat:
  "i < length g \<Longrightarrow> j < length (g ! i) \<Longrightarrow>
     py_set2 g (int i) (int j) v = Inr (g[i := (g ! i)[j := v]])"
  by (simp add: py_set2_def py_get_nat py_set_nat)

lemma py_get2_nth:
  "0 \<le> i \<Longrightarrow> i < int (length g) \<Longrightarrow> 0 \<le> j \<Longrightarrow> j < int (length (g ! nat i)) \<Longrightarrow>
     py_get2 g i j = Inr (g ! nat i ! nat j)"
  by (simp add: py_get2_def py_get_nth)

lemma py_set2_nth:
  "0 \<le> i \<Longrightarrow> i < int (length g) \<Longrightarrow> 0 \<le> j \<Longrightarrow> j < int (length (g ! nat i)) \<Longrightarrow>
     py_set2 g i j v = Inr (g[nat i := (g ! nat i)[nat j := v]])"
  by (simp add: py_set2_def py_get_nth py_set_nth)

lemma py_set_Inr_iff:
  "py_set xs i v = Inr ys \<longleftrightarrow> (\<exists>j. py_index (length xs) i = Some j \<and> ys = xs[j := v])"
  by (auto simp add: py_set_def split: option.splits)

lemma py_index_less: "py_index n i = Some j \<Longrightarrow> j < n"
  by (auto simp add: py_index_def split: if_splits)

lemma py_set_length: "py_set xs i v = Inr ys \<Longrightarrow> length ys = length xs"
  by (auto simp add: py_set_Inr_iff)

lemma py_set2_shape: "py_set2 g i j v = Inr g' \<Longrightarrow> map length g' = map length g"
  by (auto simp add: py_set2_def py_set_Inr_iff py_get_def ebind_Inr_iff map_update
      split: option.splits dest!: py_index_less) (metis list_update_id map_update length_list_update)

lemma py_range_len: "a \<le> b \<Longrightarrow> m = nat (b - a) \<Longrightarrow> py_range a b = py_range a (a + int m)"
  by simp

text \<open>ck_init\<close>

lemma ck_init_value:
  assumes p0: "0 \<le> degree c" and po: "degree c < order"
  shows "\<exists>CK. ck_init c order = Inr CK \<and> length CK = nat (order + 1)
           \<and> (\<forall>t. nat (degree c) < t \<and> t < nat (order + 1)
                 \<longrightarrow> CK ! t = replicate (nat (dimension c)) (Some 0))"
proof -
  define m where "m = nat (order - degree c)"
  define a where "a = degree c + 1"
  define z where "z = replicate (nat (dimension c)) (Some (0::real))"
  define I where "I = (\<lambda>i (CK :: real option list list).
      length CK = nat (order + 1) \<and> (\<forall>t. nat a \<le> t \<and> t < nat a + i \<longrightarrow> CK ! t = z))"
  have rng: "py_range (degree c + 1) (order + 1) = py_range a (a + int m)"
    unfolding a_def m_def using po by (intro py_range_len) simp_all
  have "\<exists>CK. for_loop (py_range a (a + int m)) (\<lambda>k CK. py_set CK k z)
           (replicate (nat (order + 1)) (replicate (nat (dimension c)) None)) = Inr CK
         \<and> I m CK"
  proof (rule for_loop_total)
    show "I 0 (replicate (nat (order + 1)) (replicate (nat (dimension c)) None))"
      by (auto simp add: I_def)
  next
    fix i CK
    assume i: "i < m" and Ii: "I i CK"
    have idx: "0 \<le> a + int i" "a + int i < int (length CK)"
      using i Ii p0 po by (simp_all add: I_def a_def m_def)
    have n: "nat (a + int i) = nat a + i" using p0 by (simp add: a_def nat_add_distrib)
    have lt: "nat a + i < length CK" using idx n by linarith
    have "CK[nat a + i := z] ! t = z" if "nat a \<le> t" "t < nat a + Suc i" for t
    proof (cases "t = nat a + i")
      case True
      then show ?thesis using lt by simp
    next
      case False
      then show ?thesis using that Ii by (simp add: I_def)
    qed
    then have "I (Suc i) (CK[nat (a + int i) := z])"
      using Ii unfolding I_def n by simp
    then show "\<exists>s'. py_set CK (a + int i) z = Inr s' \<and> I (Suc i) s'"
      using py_set_nth [OF idx] by simp
  qed
  then obtain CK where CK: "ck_init c order = Inr CK" "I m CK"
    unfolding ck_init_def rng z_def by auto
  have "nat a + m = nat (order + 1)" using p0 po by (simp add: a_def m_def)
  moreover have "nat a = Suc (nat (degree c))" using p0 by (simp add: a_def nat_add_distrib)
  ultimately show ?thesis using CK by (auto simp add: I_def z_def)
qed

lemma axpy_total:
  assumes "None \<notin> set accs" and "None \<notin> set xs"
    and "zip accs xs \<noteq> [] \<Longrightarrow> \<exists>b. coeff = Inr b"
  shows "\<exists>v. axpy accs coeff xs = Inr v \<and> None \<notin> set v"
proof (cases "zip accs xs = []")
  case True
  then show ?thesis by (simp add: axpy_def)
next
  case False
  with assms(3) obtain b where b: "coeff = Inr b" by auto
  have "\<not> list_ex (\<lambda>(a, x). a = None \<or> x = None) (zip accs xs)"
    using assms(1,2) by (auto simp add: list_ex_iff dest: set_zip_leftD set_zip_rightD)
  then show ?thesis using False b by (auto simp add: axpy_def)
qed

lemma ck_outer_loop:
  fixes inner :: "int \<Rightarrow> real option list list \<Rightarrow> error + real option list list"
  assumes len: "length CK0 = N" and du: "du < N"
    and inner: "\<And>k CK1. k \<le> du \<Longrightarrow> length CK1 = N \<Longrightarrow>
        \<exists>CK2. inner (int k) (CK1[k := z]) = Inr CK2 \<and> length CK2 = N
             \<and> (\<forall>t. t \<noteq> k \<longrightarrow> CK2 ! t = CK1 ! t)"
  shows "\<exists>CK. for_loop (py_range 0 (0 + int (Suc du)))
                 (\<lambda>k CK. ebind (py_set CK k z) (inner k)) CK0 = Inr CK
           \<and> length CK = N \<and> (\<forall>t. du < t \<longrightarrow> CK ! t = CK0 ! t)"
proof -
  define I where "I = (\<lambda>i (CK :: real option list list).
      length CK = N \<and> (\<forall>t. i \<le> t \<longrightarrow> CK ! t = CK0 ! t))"
  have "\<exists>CK. for_loop (py_range 0 (0 + int (Suc du)))
                 (\<lambda>k CK. ebind (py_set CK k z) (inner k)) CK0 = Inr CK \<and> I (Suc du) CK"
  proof (rule for_loop_total)
    show "I 0 CK0" by (simp add: I_def len)
  next
    fix i CK
    assume i: "i < Suc du" and Ii: "I i CK"
    then have l: "length CK = N" and "i < length CK" using du by (simp_all add: I_def)
    then have s: "py_set CK (0 + int i) z = Inr (CK[i := z])" by (simp add: py_set_nat)
    from inner [of i CK] i l obtain CK2 where
      "inner (int i) (CK[i := z]) = Inr CK2" "length CK2 = N" "\<forall>t. t \<noteq> i \<longrightarrow> CK2 ! t = CK ! t"
      by auto
    then show "\<exists>s'. ebind (py_set CK (0 + int i) z) (inner (0 + int i)) = Inr s' \<and> I (Suc i) s'"
      using s Ii by (auto simp add: I_def)
  qed
  then show ?thesis by (auto simp add: I_def)
qed

lemma derivatives2_inner:
  assumes len: "length CK1 = N" and k: "k < N" and some: "None \<notin> set (CK1 ! k)"
    and cps: "\<And>j. j \<le> m \<Longrightarrow> 0 \<le> a + int j \<and> a + int j < int (length cps)"
    and tab: "\<And>j. j \<le> m \<Longrightarrow> \<exists>b. py_get2 tab (int k) (int j) = Inr b"
  shows "\<exists>CK2. for_loop (py_range 0 (0 + int (Suc m)))
            (\<lambda>j CK. ebind (py_get CK (int k)) (\<lambda>CKk.
                     ebind (py_get cps (a + j)) (\<lambda>ctrl_pt.
                     ebind (axpy CKk (py_get2 tab (int k) j) (map Some ctrl_pt)) (\<lambda>v.
                     py_set CK (int k) v)))) CK1 = Inr CK2
          \<and> length CK2 = N \<and> (\<forall>t. t \<noteq> k \<longrightarrow> CK2 ! t = CK1 ! t)"
proof -
  define I where "I = (\<lambda>(i::nat) (CK :: real option list list).
      length CK = N \<and> None \<notin> set (CK ! k) \<and> (\<forall>t. t \<noteq> k \<longrightarrow> CK ! t = CK1 ! t))"
  have "\<exists>CK2. for_loop (py_range 0 (0 + int (Suc m)))
            (\<lambda>j CK. ebind (py_get CK (int k)) (\<lambda>CKk.
                     ebind (py_get cps (a + j)) (\<lambda>ctrl_pt.
                     ebind (axpy CKk (py_get2 tab (int k) j) (map Some ctrl_pt)) (\<lambda>v.
                     py_set CK (int k) v)))) CK1 = Inr CK2 \<and> I (Suc m) CK2"
  proof (rule for_loop_total)
    show "I 0 CK1" by (simp add: I_def len some)
  next
    fix j CK
    assume j: "j < Suc m" and Ij: "I j CK"
    then have l: "length CK = N" and n: "None \<notin> set (CK ! k)" by (simp_all add: I_def)
    have g: "py_get CK (int k) = Inr (CK ! k)" using l k by (simp add: py_get_nat)
    have c: "py_get cps (a + int j) = Inr (cps ! nat (a + int j))"
      using cps [of j] j by (simp add: py_get_nth)
    obtain v where v: "axpy (CK ! k) (py_get2 tab (int k) (int j))
          (map Some (cps ! nat (a + int j))) = Inr v" "None \<notin> set v"
      using axpy_total [OF n, of "map Some (cps ! nat (a + int j))" "py_get2 tab (int k) (int j)"]
        tab [of j] j by auto
    have "I (Suc j) (CK[k := v])" using Ij v(2) k l by (auto simp add: I_def)
    then show "\<exists>s'. ebind (py_get CK (int k)) (\<lambda>CKk.
                     ebind (py_get cps (a + (0 + int j))) (\<lambda>ctrl_pt.
                     ebind (axpy CKk (py_get2 tab (int k) (0 + int j)) (map Some ctrl_pt)) (\<lambda>v.
                     py_set CK (int k) v))) = Inr s' \<and> I (Suc j) s'"
      using g c v(1) l k by (simp add: py_set_nat)
  qed
  then show ?thesis by (auto simp add: I_def)
qed

lemma derivatives2_high_order:
  assumes v: "valid_curve c"
    and dom: "in_domain (degree c) (knot_vector c) (int (length (control_points c))) u"
    and u: "0 \<le> u" "u \<le> 1" and po: "degree c < order"
    and tab: "\<And>k. find_span (degree c) (knot_vector c) (int (length (control_points c))) u = Inr k
        \<Longrightarrow> \<exists>tab. basis_functions_ders (degree c) (knot_vector c) k u (degree c) = Inr tab
              \<and> length tab = nat (degree c + 1)
              \<and> (\<forall>row \<in> set tab. length row = nat (degree c + 1))"
  shows "\<exists>CK. derivatives2 c u order = Inr CK \<and> length CK = nat (order + 1)
           \<and> (\<forall>t. nat (degree c) < t \<and> t < nat (order + 1)
                 \<longrightarrow> CK ! t = replicate (nat (dimension c)) (Some 0))"
proof -
  define n where "n = int (length (control_points c))"
  define p where "p = degree c"
  define z where "z = replicate (nat (dimension c)) (Some (0::real))"
  have ok: "knots_ok p (knot_vector c) n" using v by (simp add: valid_curve_def n_def p_def)
  have p0: "0 \<le> p" using ok by (simp add: knots_ok_def)
  have cv: "check_variables c = Inr ()" by (rule valid_curve_check [OF v])
  from find_span_total [OF ok dom [folded n_def p_def]] obtain k where
    fs: "find_span p (knot_vector c) n u = Inr k" and k: "p \<le> k" "k < n"
    by auto
  from tab [of k] fs obtain tab where
    bd: "basis_functions_ders p (knot_vector c) k u p = Inr tab"
    and shape: "length tab = nat (p + 1)" "\<And>row. row \<in> set tab \<Longrightarrow> length row = nat (p + 1)"
    by (auto simp add: n_def p_def)
  from ck_init_value [of c order] p0 po obtain CK0 where
    ck: "ck_init c order = Inr CK0" and len0: "length CK0 = nat (order + 1)"
    and zero0: "\<And>t. nat p < t \<Longrightarrow> t < nat (order + 1) \<Longrightarrow> CK0 ! t = z"
    by (auto simp add: p_def z_def)
  have du: "min p order = p" using po by (simp add: p_def)
  have rng: "py_range 0 (p + 1) = py_range 0 (0 + int (Suc (nat p)))"
    using p0 by (intro py_range_len) simp_all
  define inner where "inner = (\<lambda>k' :: int. for_loop (py_range 0 (p + 1))
              (\<lambda>j CK.
                 ebind (py_get CK k') (\<lambda>CKk.
                 ebind (py_get (control_points c) (k - p + j)) (\<lambda>ctrl_pt.
                 ebind (axpy CKk (py_get2 tab k' j) (map Some ctrl_pt)) (\<lambda>v.
                 py_set CK k' v)))))"
  have "\<exists>CK. for_loop (py_range 0 (0 + int (Suc (nat p))))
                 (\<lambda>k CK. ebind (py_set CK k z) (inner k)) CK0 = Inr CK
           \<and> length CK = nat (order + 1) \<and> (\<forall>t. nat p < t \<longrightarrow> CK ! t = CK0 ! t)"
  proof (rule ck_outer_loop [OF len0])
    show "nat p < nat (order + 1)" using po p0 by (simp add: p_def)
  next
    fix k' and CK1 :: "real option list list"
    assume k': "k' \<le> nat p" and l: "length CK1 = nat (order + 1)"
    have kN: "k' < nat (order + 1)" using k' po p0 by (simp add: p_def)
    have "\<exists>CK2. for_loop (py_range 0 (0 + int (Suc (nat p))))
            (\<lambda>j CK. ebind (py_get CK (int k')) (\<lambda>CKk.
                     ebind (py_get (control_points c) (k - p + j)) (\<lambda>ctrl_pt.
                     ebind (axpy CKk (py_get2 tab (int k') j) (map Some ctrl_pt)) (\<lambda>v.
                     py_set CK (int k') v)))) (CK1[k' := z]) = Inr CK2
          \<and> length CK2 = nat (order + 1) \<and> (\<forall>t. t \<noteq> k' \<longrightarrow> CK2 ! t = (CK1[k' := z]) ! t)"
    proof (rule derivatives2_inner)
      show "length (CK1[k' := z]) = nat (order + 1)" using l by simp
      show "k' < nat (order + 1)" by (rule kN)
      show "None \<notin> set (CK1[k' := z] ! k')" using kN l by (simp add: z_def)
    next
      fix j assume "j \<le> nat p"
      then show "0 \<le> k - p + int j \<and> k - p + int j < int (length (control_points c))"
        using k p0 by (simp add: n_def)
    next
      fix j assume j: "j \<le> nat p"
      have "tab ! k' \<in> set tab" using k' shape(1) p0 by (intro nth_mem) simp
      then have "j < length (tab ! k')" using shape(2) j p0 by simp
      moreover have "k' < length tab" using k' shape(1) p0 by simp
      ultimately show "\<exists>b. py_get2 tab (int k') (int j) = Inr b"
        by (simp add: py_get2_nat)
    qed
    then show "\<exists>CK2. inner (int k') (CK1[k' := z]) = Inr CK2 \<and> length CK2 = nat (order + 1)
             \<and> (\<forall>t. t \<noteq> k' \<longrightarrow> CK2 ! t = CK1 ! t)"
      unfolding inner_def rng by auto
  qed
  then obtain CK where
    loop: "for_loop (py_range 0 (p + 1)) (\<lambda>k CK. ebind (py_set CK k z) (inner k)) CK0 = Inr CK"
    and lenCK: "length CK = nat (order + 1)" and same: "\<And>t. nat p < t \<Longrightarrow> CK ! t = CK0 ! t"
    unfolding rng by auto
  have "derivatives2 c u order = Inr CK"
    using cv u ck fs bd loop
    by (simp add: derivatives2_def du [unfolded p_def] inner_def z_def p_def n_def Let_def)
  then show ?thesis using lenCK same zero0 by (auto simp add: p_def z_def)
qed

lemma shape_update:
  "shape g rows cols \<Longrightarrow> i < rows \<Longrightarrow> length v = cols \<Longrightarrow> shape (g[i := v]) rows cols"
  by (auto simp add: shape_def nth_list_update)

lemma shape_update2:
  "shape g rows cols \<Longrightarrow> shape (g[i := (g ! i)[j := v]]) rows cols"
  by (cases "i < length g") (auto simp add: shape_def nth_list_update)

lemma shape_replicate: "shape (replicate rows (replicate cols x)) rows cols"
  by (simp add: shape_def)

lemma shape_get2:
  "shape g rows cols \<Longrightarrow> i < rows \<Longrightarrow> j < cols \<Longrightarrow> py_get2 g (int i) (int j) = Inr (g ! i ! j)"
  by (simp add: shape_def py_get2_nat)

lemma shape_set2:
  "shape g rows cols \<Longrightarrow> i < rows \<Longrightarrow> j < cols \<Longrightarrow>
     py_set2 g (int i) (int j) v = Inr (g[i := (g ! i)[j := v]])"
  by (simp add: shape_def py_set2_nat)

lemma nth_update2:
  "i < length g \<Longrightarrow> j < length (g ! i) \<Longrightarrow>
     g[i := (g ! i)[j := v]] ! i' ! j' = (if i' = i \<and> j' = j then v else g ! i' ! j')"
  by (auto simp add: nth_list_update)

lemma basis_functions_all_total:
  assumes ok: "knots_ok p kv n" and k: "p \<le> k" "k < n"
    and span: "kv ! nat k < kv ! nat (k + 1)"
  shows "\<exists>bfuns. basis_functions_all p kv k u = Inr bfuns
           \<and> shape bfuns (Suc (nat p)) (Suc (nat p))
           \<and> (\<forall>i j. i \<le> nat p \<and> j \<le> i \<longrightarrow> bfuns ! j ! i \<noteq> None)"
proof -
  define P where "P = Suc (nat p)"
  have p0: "0 \<le> p" and pn: "p + 1 \<le> n" and lenkv: "int (length kv) = n + p + 1"
    and srt: "sorted kv"
    using ok by (simp_all add: knots_ok_def)
  define I where "I = (\<lambda>i (N :: real option list list).
      shape N P P \<and> (\<forall>i' j. i' < i \<and> j \<le> i' \<longrightarrow> N ! j ! i' \<noteq> None))"
  have rng: "py_range 0 (p + 1) = py_range 0 (0 + int P)"
    using p0 unfolding P_def by (intro py_range_len) simp_all
  have "\<exists>N. for_loop (py_range 0 (0 + int P))
       (\<lambda>i N. ebind (basis_functions i kv k u) (\<lambda>bfuns.
          for_loop (py_range 0 (i + 1))
            (\<lambda>j N. ebind (py_get bfuns j) (\<lambda>b. py_set2 N j i (Some b))) N))
       (replicate P (replicate P None)) = Inr N \<and> I P N"
  proof (rule for_loop_total)
    show "I 0 (replicate P (replicate P None))" by (simp add: I_def shape_replicate)
  next
    fix i N
    assume i: "i < P" and Ii: "I i N"
    have "knots_ok (int i) kv (n + p - int i)"
      using i p0 pn lenkv srt by (simp add: knots_ok_def P_def)
    moreover have "int i \<le> k" "k < n + p - int i" using i k p0 by (simp_all add: P_def)
    ultimately obtain b where b: "basis_functions (int i) kv k u = Inr b"
      using basis_functions_total [of "int i" kv "n + p - int i" k u] span by auto
    have lenb: "length b = Suc i" using basis_functions_sum [OF b] by simp
    define J where "J = (\<lambda>j (N :: real option list list).
      shape N P P \<and> (\<forall>i' j'. i' < i \<and> j' \<le> i' \<longrightarrow> N ! j' ! i' \<noteq> None)
      \<and> (\<forall>j'. j' < j \<longrightarrow> N ! j' ! i \<noteq> None))"
    have "\<exists>N'. for_loop (py_range 0 (0 + int (Suc i)))
            (\<lambda>j N. ebind (py_get b j) (\<lambda>x. py_set2 N j (int i) (Some x))) N = Inr N' \<and> J (Suc i) N'"
    proof (rule for_loop_total)
      show "J 0 N" using Ii by (simp add: J_def I_def)
    next
      fix j M
      assume j: "j < Suc i" and Jj: "J j M"
      then have sh: "shape M P P" by (simp add: J_def)
      have jP: "j < P" using j i by simp
      have g: "py_get b (0 + int j) = Inr (b ! j)" using j lenb by (simp add: py_get_nat)
      have s: "py_set2 M (0 + int j) (int i) (Some (b ! j)) = Inr (M[j := (M ! j)[i := Some (b ! j)]])"
        using shape_set2 [OF sh jP i] by simp
      have lens: "j < length M" "i < length (M ! j)" using sh jP i by (simp_all add: shape_def)
      have "J (Suc j) (M[j := (M ! j)[i := Some (b ! j)]])"
        unfolding J_def
      proof (intro conjI allI impI)
        show "shape (M[j := (M ! j)[i := Some (b ! j)]]) P P" by (rule shape_update2 [OF sh])
      next
        fix i' j' assume "i' < i \<and> j' \<le> i'"
        then show "M[j := (M ! j)[i := Some (b ! j)]] ! j' ! i' \<noteq> None"
          using Jj by (simp add: nth_update2 [OF lens] J_def)
      next
        fix j' assume "j' < Suc j"
        then show "M[j := (M ! j)[i := Some (b ! j)]] ! j' ! i \<noteq> None"
          using Jj by (auto simp add: nth_update2 [OF lens] J_def less_Suc_eq)
      qed
      then show "\<exists>s'. ebind (py_get b (0 + int j)) (\<lambda>x. py_set2 M (0 + int j) (int i) (Some x)) = Inr s'
                \<and> J (Suc j) s'"
        using g s by simp
    qed
    then obtain N' where
      N': "for_loop (py_range 0 (0 + int (Suc i)))
            (\<lambda>j N. ebind (py_get b j) (\<lambda>x. py_set2 N j (int i) (Some x))) N = Inr N'"
      and J: "J (Suc i) N'" by auto
    have "N' ! j ! i' \<noteq> None" if "i' < Suc i" "j \<le> i'" for i' j
    proof (cases "i' = i")
      case True
      then show ?thesis using J that by (simp add: J_def)
    next
      case False
      then show ?thesis using J that by (simp add: J_def)
    qed
    then have "I (Suc i) N'" using J by (simp add: I_def J_def)
    moreover have "py_range 0 (0 + int i + 1) = py_range 0 (0 + int (Suc i))"
      by (simp add: add.commute)
    ultimately show "\<exists>s'. ebind (basis_functions (0 + int i) kv k u) (\<lambda>bfuns.
          for_loop (py_range 0 (0 + int i + 1))
            (\<lambda>j N. ebind (py_get bfuns j) (\<lambda>b. py_set2 N j (0 + int i) (Some b))) N) = Inr s'
         \<and> I (Suc i) s'"
      using b N' by auto
  qed
  then show ?thesis
    unfolding basis_functions_all_def rng P_def [symmetric]
    using p0 by (auto simp add: I_def P_def nat_add_distrib)
qed

lemma diff_quot_total:
  assumes "\<And>e. e \<in> set es \<Longrightarrow> fst e \<noteq> None \<and> snd e \<noteq> None"
    and "py_get kv a = Inr ka" and "py_get kv b = Inr kb" and "ka \<noteq> kb"
  shows "\<exists>v. diff_quot tmp es kv a b = Inr v \<and> None \<notin> set v"
  using assms(1)
proof (induction es)
  case Nil
  show ?case by simp
next
  case (Cons e es)
  obtain e1 e2 where e: "e = (e1, e2)" by (cases e)
  from Cons.prems [of e] obtain x y where xy: "e1 = Some x" "e2 = Some y" by (auto simp add: e)
  from Cons.IH Cons.prems obtain v where "diff_quot tmp es kv a b = Inr v" "None \<notin> set v"
    by auto
  then show ?case using assms(2-4) by (simp add: e xy py_div_def)
qed

lemma derivatives_ctrlpts_total:
  assumes ok: "knots_ok (degree c) (knot_vector c) (int (length (control_points c)))"
    and k: "degree c \<le> ks" "ks < int (length (control_points c))"
    and span: "knot_vector c ! nat ks < knot_vector c ! nat (ks + 1)"
  shows "\<exists>PK. derivatives_ctrlpts c (degree c) (ks - degree c) ks = Inr PK
           \<and> shape PK (Suc (nat (degree c))) (Suc (nat (degree c)))
           \<and> (\<forall>k' j. k' \<le> nat (degree c) \<and> j + k' \<le> nat (degree c)
                 \<longrightarrow> None \<notin> set (PK ! k' ! j))"
proof -
  define p where "p = degree c"
  define kv where "kv = knot_vector c"
  define n where "n = int (length (control_points c))"
  define P where "P = Suc (nat p)"
  have p0: "0 \<le> p" and pn: "p + 1 \<le> n" and lenkv: "int (length kv) = n + p + 1"
    and srt: "sorted kv"
    using ok by (simp_all add: knots_ok_def p_def kv_def n_def)
  have kk: "p \<le> ks" "ks < n" using k by (simp_all add: p_def n_def)
  have sp: "kv ! nat ks < kv ! nat (ks + 1)" using span by (simp add: kv_def)
  text \<open>the first loop\<close>
  define I1 where "I1 = (\<lambda>i (PK :: real option list list list).
      shape PK P P \<and> (\<forall>i'. i' < i \<longrightarrow> None \<notin> set (PK ! 0 ! i')))"
  have "\<exists>PK. for_loop (py_range 0 (0 + int P))
           (\<lambda>i PK. ebind (py_get (control_points c) (ks - p + i)) (\<lambda>pt.
                      py_set2 PK 0 i (map Some pt)))
           (replicate P (replicate P (replicate (nat (dimension c)) None))) = Inr PK \<and> I1 P PK"
  proof (rule for_loop_total)
    show "I1 0 (replicate P (replicate P (replicate (nat (dimension c)) None)))"
      by (simp add: I1_def shape_replicate)
  next
    fix i PK
    assume i: "i < P" and Ii: "I1 i PK"
    then have sh: "shape PK P P" by (simp add: I1_def)
    have g: "py_get (control_points c) (ks - p + (0 + int i))
               = Inr (control_points c ! nat (ks - p + int i))"
      using i kk p0 by (simp add: py_get_nth P_def n_def)
    define pt where "pt = control_points c ! nat (ks - p + int i)"
    have s: "py_set2 PK 0 (0 + int i) (map Some pt) = Inr (PK[0 := (PK ! 0)[i := map Some pt]])"
      using shape_set2 [OF sh _ i, of 0] by (simp add: P_def)
    have lens: "0 < length PK" "i < length (PK ! 0)" using sh i by (simp_all add: shape_def P_def)
    have "None \<notin> set (PK[0 := (PK ! 0)[i := map Some pt]] ! 0 ! i')" if "i' < Suc i" for i'
      using that Ii by (cases "i' = i") (auto simp add: nth_update2 [OF lens] I1_def)
    then have "I1 (Suc i) (PK[0 := (PK ! 0)[i := map Some pt]])"
      using shape_update2 [OF sh] by (simp add: I1_def)
    then show "\<exists>s'. ebind (py_get (control_points c) (ks - p + (0 + int i))) (\<lambda>pt.
                      py_set2 PK 0 (0 + int i) (map Some pt)) = Inr s' \<and> I1 (Suc i) s'"
      using g s by (simp add: pt_def)
  qed
  then obtain PK1 where
    first: "for_loop (py_range 0 (0 + int P))
           (\<lambda>i PK. ebind (py_get (control_points c) (ks - p + i)) (\<lambda>pt.
                      py_set2 PK 0 i (map Some pt)))
           (replicate P (replicate P (replicate (nat (dimension c)) None))) = Inr PK1"
    and I1: "I1 P PK1" by auto
  text \<open>the second loop\<close>
  define I2 where "I2 = (\<lambda>m (PK :: real option list list list).
      shape PK P P \<and> (\<forall>k' j. k' \<le> m \<and> j + k' \<le> nat p \<longrightarrow> None \<notin> set (PK ! k' ! j)))"
  define body where "body = (\<lambda>(k' :: int) (i :: int) (PK :: real option list list list).
                   ebind (py_get2 PK (k' - 1) (i + 1)) (\<lambda>e1s.
                   ebind (py_get2 PK (k' - 1) i) (\<lambda>e2s.
                   ebind (diff_quot (p - k' + 1) (zip e1s e2s) kv
                            (ks - p + i + p + 1) (ks - p + i + k')) (\<lambda>v.
                   py_set2 PK k' i v))))"
  have "\<exists>PK. for_loop (py_range 1 (1 + int (nat p)))
           (\<lambda>k'. for_loop (py_range 0 (p - k' + 1)) (body k')) PK1 = Inr PK \<and> I2 (nat p) PK"
  proof (rule for_loop_total)
    show "I2 0 PK1" using I1 by (auto simp add: I2_def I1_def P_def)
  next
    fix m PK
    assume m: "m < nat p" and Im: "I2 m PK"
    define cnt where "cnt = nat p - m"
    have rng: "py_range 0 (p - (1 + int m) + 1) = py_range 0 (0 + int cnt)"
      using m by (intro py_range_len) (simp_all add: cnt_def)
    define J where "J = (\<lambda>i (Q :: real option list list list).
      shape Q P P \<and> (\<forall>k' j. k' \<le> m \<and> j + k' \<le> nat p \<longrightarrow> None \<notin> set (Q ! k' ! j))
      \<and> (\<forall>i'. i' < i \<longrightarrow> None \<notin> set (Q ! Suc m ! i')))"
    have "\<exists>Q. for_loop (py_range 0 (0 + int cnt)) (body (1 + int m)) PK = Inr Q \<and> J cnt Q"
    proof (rule for_loop_total)
      show "J 0 PK" using Im by (simp add: J_def I2_def)
    next
      fix i Q
      assume i: "i < cnt" and Ji: "J i Q"
      then have sh: "shape Q P P" by (simp add: J_def)
      have im: "Suc i + m \<le> nat p" using i by (simp add: cnt_def)
      have mP: "m < P" "Suc m < P" "i < P" "Suc i < P" using m im by (simp_all add: P_def)
      have g1: "py_get2 Q (1 + int m - 1) (0 + int i + 1) = Inr (Q ! m ! Suc i)"
        using shape_get2 [OF sh mP(1) mP(4)] by (simp add: add.commute)
      have g2: "py_get2 Q (1 + int m - 1) (0 + int i) = Inr (Q ! m ! i)"
        using shape_get2 [OF sh mP(1) mP(3)] by simp
      have n1: "None \<notin> set (Q ! m ! Suc i)" and n2: "None \<notin> set (Q ! m ! i)"
        using Ji im by (simp_all add: J_def)
      have ia: "0 \<le> ks + int i + 1" "ks + int i + 1 < int (length kv)"
        using kk p0 im lenkv by simp_all
      have ib: "0 \<le> ks - p + int i + (1 + int m)" "ks - p + int i + (1 + int m) < int (length kv)"
        using kk p0 im lenkv by simp_all
      have "kv ! nat (ks - p + int i + (1 + int m)) \<le> kv ! nat ks"
        using srt kk p0 im lenkv by (intro sorted_nth_le) simp_all
      moreover have "kv ! nat (ks + 1) \<le> kv ! nat (ks + int i + 1)"
        using srt kk p0 im lenkv by (intro sorted_nth_le) simp_all
      ultimately have ne: "kv ! nat (ks + int i + 1) \<noteq> kv ! nat (ks - p + int i + (1 + int m))"
        using sp by simp
      have "\<exists>v. diff_quot (p - (1 + int m) + 1) (zip (Q ! m ! Suc i) (Q ! m ! i)) kv
                 (ks + int i + 1) (ks - p + int i + (1 + int m)) = Inr v \<and> None \<notin> set v"
      proof (rule diff_quot_total [OF _ py_get_nth [OF ia] py_get_nth [OF ib] ne])
        fix e assume e: "e \<in> set (zip (Q ! m ! Suc i) (Q ! m ! i))"
        obtain x y where xy: "e = (x, y)" by (cases e)
        from e have "x \<in> set (Q ! m ! Suc i)" "y \<in> set (Q ! m ! i)"
          unfolding xy by (auto dest: set_zip_leftD set_zip_rightD)
        then have "x \<noteq> None \<and> y \<noteq> None" using n1 n2 by metis
        then show "fst e \<noteq> None \<and> snd e \<noteq> None"
          unfolding xy fst_conv snd_conv .
      qed
      then obtain v where
        v: "diff_quot (p - (1 + int m) + 1) (zip (Q ! m ! Suc i) (Q ! m ! i)) kv
                 (ks + int i + 1) (ks - p + int i + (1 + int m)) = Inr v" and nv: "None \<notin> set v"
        by auto
      have s: "py_set2 Q (1 + int m) (0 + int i) v = Inr (Q[Suc m := (Q ! Suc m)[i := v]])"
        using shape_set2 [OF sh mP(2) mP(3)] by (simp add: add.commute)
      have lens: "Suc m < length Q" "i < length (Q ! Suc m)"
        using sh mP by (simp_all add: shape_def)
      have "J (Suc i) (Q[Suc m := (Q ! Suc m)[i := v]])"
        unfolding J_def
      proof (intro conjI allI impI)
        show "shape (Q[Suc m := (Q ! Suc m)[i := v]]) P P" by (rule shape_update2 [OF sh])
      next
        fix k' j assume "k' \<le> m \<and> j + k' \<le> nat p"
        then show "None \<notin> set (Q[Suc m := (Q ! Suc m)[i := v]] ! k' ! j)"
          using Ji by (simp add: nth_update2 [OF lens] J_def)
      next
        fix i' assume "i' < Suc i"
        then show "None \<notin> set (Q[Suc m := (Q ! Suc m)[i := v]] ! Suc m ! i')"
          using Ji nv by (cases "i' = i") (simp_all add: nth_update2 [OF lens] J_def)
      qed
      moreover have "ks - p + (0 + int i) + p + 1 = ks + int i + 1"
        "ks - p + (0 + int i) + (1 + int m) = ks - p + int i + (1 + int m)" by simp_all
      ultimately show "\<exists>s'. body (1 + int m) (0 + int i) Q = Inr s' \<and> J (Suc i) s'"
        unfolding body_def using g1 g2 v s by simp
    qed
    then obtain Q where Q: "for_loop (py_range 0 (0 + int cnt)) (body (1 + int m)) PK = Inr Q"
      and J: "J cnt Q" by auto
    have "None \<notin> set (Q ! k' ! j)" if "k' \<le> Suc m" "j + k' \<le> nat p" for k' j
    proof (cases "k' = Suc m")
      case True
      then have "j < cnt" using that by (simp add: cnt_def)
      then show ?thesis using J True by (simp add: J_def)
    next
      case False
      then show ?thesis using J that by (simp add: J_def)
    qed
    then have "I2 (Suc m) Q" using J by (simp add: I2_def J_def)
    then show "\<exists>s'. for_loop (py_range 0 (p - (1 + int m) + 1)) (body (1 + int m)) PK = Inr s'
                \<and> I2 (Suc m) s'"
      unfolding rng using Q by auto
  qed
  then obtain PK where
    second: "for_loop (py_range 1 (1 + int (nat p)))
           (\<lambda>k'. for_loop (py_range 0 (p - k' + 1)) (body k')) PK1 = Inr PK"
    and I2: "I2 (nat p) PK" by auto
  have e: "ks - (ks - p) = p" by simp
  have P': "nat (p + 1) = P" using p0 by (simp add: P_def nat_add_distrib)
  have r1: "py_range 0 (p + 1) = py_range 0 (0 + int P)"
    using p0 by (intro py_range_len) (simp_all add: P_def)
  have r2: "py_range 1 (p + 1) = py_range 1 (1 + int (nat p))"
    using p0 by (intro py_range_len) simp_all
  have "derivatives_ctrlpts c p (ks - p) ks = Inr PK"
    unfolding derivatives_ctrlpts_def Let_def p_def [symmetric] kv_def [symmetric] e r1 r2 P'
    by (simp only: first ebind_simps second [unfolded body_def])
  then show ?thesis using I2 by (auto simp add: I2_def p_def P_def)
qed

lemma derivatives_inner:
  assumes len: "length CK1 = N" and k: "k < N" and some: "None \<notin> set (CK1 ! k)"
    and pk: "\<And>j. j \<le> m \<Longrightarrow> \<exists>row. py_get2 PK (int k) (int j) = Inr row \<and> None \<notin> set row"
    and bf: "\<And>j. j \<le> m \<Longrightarrow> \<exists>b. py_get2 bfuns (int j) q = Inr (Some b)"
  shows "\<exists>CK2. for_loop (py_range 0 (0 + int (Suc m)))
            (\<lambda>j CK. ebind (py_get CK (int k)) (\<lambda>CKk.
                     ebind (py_get2 PK (int k) j) (\<lambda>drv_ctrlpt.
                     ebind (axpy CKk
                              (ebind (py_get2 bfuns j q)
                                 (\<lambda>b. case b of None \<Rightarrow> Inl TypeError | Some x \<Rightarrow> Inr x))
                              drv_ctrlpt) (\<lambda>v.
                     py_set CK (int k) v)))) CK1 = Inr CK2
          \<and> length CK2 = N \<and> (\<forall>t. t \<noteq> k \<longrightarrow> CK2 ! t = CK1 ! t)"
proof -
  define I where "I = (\<lambda>(i::nat) (CK :: real option list list).
      length CK = N \<and> None \<notin> set (CK ! k) \<and> (\<forall>t. t \<noteq> k \<longrightarrow> CK ! t = CK1 ! t))"
  have "\<exists>CK2. for_loop (py_range 0 (0 + int (Suc m)))
            (\<lambda>j CK. ebind (py_get CK (int k)) (\<lambda>CKk.
                     ebind (py_get2 PK (int k) j) (\<lambda>drv_ctrlpt.
                     ebind (axpy CKk
                              (ebind (py_get2 bfuns j q)
                                 (\<lambda>b. case b of None \<Rightarrow> Inl TypeError | Some x \<Rightarrow> Inr x))
                              drv_ctrlpt) (\<lambda>v.
                     py_set CK (int k) v)))) CK1 = Inr CK2 \<and> I (Suc m) CK2"
  proof (rule for_loop_total)
    show "I 0 CK1" by (simp add: I_def len some)
  next
    fix j CK
    assume j: "j < Suc m" and Ij: "I j CK"
    then have l: "length CK = N" and n: "None \<notin> set (CK ! k)" by (simp_all add: I_def)
    have g: "py_get CK (int k) = Inr (CK ! k)" using l k by (simp add: py_get_nat)
    from pk [of j] j obtain row where
      row: "py_get2 PK (int k) (int j) = Inr row" "None \<notin> set row" by auto
    from bf [of j] j obtain b where b: "py_get2 bfuns (int j) q = Inr (Some b)" by auto
    obtain v where v: "axpy (CK ! k)
          (ebind (py_get2 bfuns (int j) q)
             (\<lambda>b. case b of None \<Rightarrow> Inl TypeError | Some x \<Rightarrow> Inr x)) row = Inr v"
        "None \<notin> set v"
      using axpy_total [OF n row(2), of "ebind (py_get2 bfuns (int j) q)
             (\<lambda>b. case b of None \<Rightarrow> Inl TypeError | Some x \<Rightarrow> Inr x)"] b by auto
    have "I (Suc j) (CK[k := v])" using Ij v(2) k l by (auto simp add: I_def)
    then show "\<exists>s'. ebind (py_get CK (int k)) (\<lambda>CKk.
                     ebind (py_get2 PK (int k) (0 + int j)) (\<lambda>drv_ctrlpt.
                     ebind (axpy CKk
                              (ebind (py_get2 bfuns (0 + int j) q)
                                 (\<lambda>b. case b of None \<Rightarrow> Inl TypeError | Some x \<Rightarrow> Inr x))
                              drv_ctrlpt) (\<lambda>v.
                     py_set CK (int k) v))) = Inr s' \<and> I (Suc j) s'"
      using g row(1) v(1) l k by (simp add: py_set_nat)
  qed
  then show ?thesis by (auto simp add: I_def)
qed

lemma derivatives_high_order:
  assumes v: "valid_curve c"
    and dom: "in_domain (degree c) (knot_vector c) (int (length (control_points c))) u"
    and u: "0 \<le> u" "u \<le> 1" and po: "degree c < order"
  shows "\<exists>CK. derivatives c u order = Inr CK \<and> length CK = nat (order + 1)
           \<and> (\<forall>t. nat (degree c) < t \<and> t < nat (order + 1)
                 \<longrightarrow> CK ! t = replicate (nat (dimension c)) (Some 0))"
proof -
  define n where "n = int (length (control_points c))"
  define p where "p = degree c"
  define z where "z = replicate (nat (dimension c)) (Some (0::real))"
  have ok: "knots_ok p (knot_vector c) n" using v by (simp add: valid_curve_def n_def p_def)
  have p0: "0 \<le> p" using ok by (simp add: knots_ok_def)
  have cv: "check_variables c = Inr ()" by (rule valid_curve_check [OF v])
  have cu: "check_uv (Some u) None = Inr ()" using u by (simp add: check_uv_def)
  from find_span_total [OF ok dom [folded n_def p_def]] obtain k where
    fs: "find_span p (knot_vector c) n u = Inr k" and k: "p \<le> k" "k < n"
    and sp: "knot_vector c ! nat k < knot_vector c ! nat (k + 1)"
    by auto
  from basis_functions_all_total [OF ok k sp, of u] obtain bfuns where
    bf: "basis_functions_all p (knot_vector c) k u = Inr bfuns"
    and bsh: "shape bfuns (Suc (nat p)) (Suc (nat p))"
    and bsome: "\<And>i j. i \<le> nat p \<Longrightarrow> j \<le> i \<Longrightarrow> bfuns ! j ! i \<noteq> None"
    by auto
  from derivatives_ctrlpts_total [OF ok [unfolded p_def n_def] k [unfolded p_def n_def] sp]
  obtain PK where
    pk: "derivatives_ctrlpts c p (k - p) k = Inr PK"
    and psh: "shape PK (Suc (nat p)) (Suc (nat p))"
    and psome: "\<And>k' j. k' \<le> nat p \<Longrightarrow> j + k' \<le> nat p \<Longrightarrow> None \<notin> set (PK ! k' ! j)"
    by (auto simp add: p_def)
  from ck_init_value [of c order] p0 po obtain CK0 where
    ck: "ck_init c order = Inr CK0" and len0: "length CK0 = nat (order + 1)"
    and zero0: "\<And>t. nat p < t \<Longrightarrow> t < nat (order + 1) \<Longrightarrow> CK0 ! t = z"
    by (auto simp add: p_def z_def)
  have du: "min p order = p" using po by (simp add: p_def)
  have rng: "py_range 0 (p + 1) = py_range 0 (0 + int (Suc (nat p)))"
    using p0 by (intro py_range_len) simp_all
  define inner where "inner = (\<lambda>k' :: int. for_loop (py_range 0 (p - k' + 1))
            (\<lambda>j CK.
               ebind (py_get CK k') (\<lambda>CKk.
               ebind (py_get2 PK k' j) (\<lambda>drv_ctrlpt.
               ebind (axpy CKk
                        (ebind (py_get2 bfuns j (p - k'))
                           (\<lambda>b. case b of None \<Rightarrow> Inl TypeError | Some x \<Rightarrow> Inr x))
                        drv_ctrlpt) (\<lambda>v.
               py_set CK k' v)))))"
  have "\<exists>CK. for_loop (py_range 0 (0 + int (Suc (nat p))))
                 (\<lambda>k CK. ebind (py_set CK k z) (inner k)) CK0 = Inr CK
           \<and> length CK = nat (order + 1) \<and> (\<forall>t. nat p < t \<longrightarrow> CK ! t = CK0 ! t)"
  proof (rule ck_outer_loop [OF len0])
    show "nat p < nat (order + 1)" using po p0 by (simp add: p_def)
  next
    fix k' and CK1 :: "real option list list"
    assume k': "k' \<le> nat p" and l: "length CK1 = nat (order + 1)"
    have kN: "k' < nat (order + 1)" using k' po p0 by (simp add: p_def)
    define m where "m = nat p - k'"
    have q: "p - int k' = int m" using k' p0 by (simp add: m_def)
    have r: "py_range 0 (int m + 1) = py_range 0 (0 + int (Suc m))"
      by (simp add: add.commute)
    have "\<exists>CK2. for_loop (py_range 0 (0 + int (Suc m)))
            (\<lambda>j CK. ebind (py_get CK (int k')) (\<lambda>CKk.
                     ebind (py_get2 PK (int k') j) (\<lambda>drv_ctrlpt.
                     ebind (axpy CKk
                              (ebind (py_get2 bfuns j (int m))
                                 (\<lambda>b. case b of None \<Rightarrow> Inl TypeError | Some x \<Rightarrow> Inr x))
                              drv_ctrlpt) (\<lambda>v.
                     py_set CK (int k') v)))) (CK1[k' := z]) = Inr CK2
          \<and> length CK2 = nat (order + 1) \<and> (\<forall>t. t \<noteq> k' \<longrightarrow> CK2 ! t = (CK1[k' := z]) ! t)"
    proof (rule derivatives_inner)
      show "length (CK1[k' := z]) = nat (order + 1)" using l by simp
      show "k' < nat (order + 1)" by (rule kN)
      show "None \<notin> set (CK1[k' := z] ! k')" using kN l by (simp add: z_def)
    next
      fix j assume j: "j \<le> m"
      have "py_get2 PK (int k') (int j) = Inr (PK ! k' ! j)"
        using shape_get2 [OF psh, of k' j] j k' by (simp add: m_def)
      moreover have "None \<notin> set (PK ! k' ! j)" using psome [of k' j] j k' by (simp add: m_def)
      ultimately show "\<exists>row. py_get2 PK (int k') (int j) = Inr row \<and> None \<notin> set row"
        by simp
    next
      fix j assume j: "j \<le> m"
      have "py_get2 bfuns (int j) (int m) = Inr (bfuns ! j ! m)"
        using shape_get2 [OF bsh, of j m] j k' by (simp add: m_def)
      moreover have "bfuns ! j ! m \<noteq> None" using bsome [of m j] j by (simp add: m_def)
      ultimately show "\<exists>b. py_get2 bfuns (int j) (int m) = Inr (Some b)" by auto
    qed
    then show "\<exists>CK2. inner (int k') (CK1[k' := z]) = Inr CK2 \<and> length CK2 = nat (order + 1)
             \<and> (\<forall>t. t \<noteq> k' \<longrightarrow> CK2 ! t = CK1 ! t)"
      unfolding inner_def q r by simp
  qed
  then obtain CK where
    loop: "for_loop (py_range 0 (p + 1)) (\<lambda>k CK. ebind (py_set CK k z) (inner k)) CK0 = Inr CK"
    and lenCK: "length CK = nat (order + 1)" and same: "\<And>t. nat p < t \<Longrightarrow> CK ! t = CK0 ! t"
    unfolding rng by auto
  have "derivatives c u order = Inr CK"
    using cv cu ck fs bf pk loop
    by (simp add: derivatives_def du [unfolded p_def] inner_def z_def p_def n_def Let_def)
  then show ?thesis using lenCK same zero0 by (auto simp add: p_def z_def)
qed

lemma shape_get2_int:
  "shape g R C \<Longrightarrow> 0 \<le> a \<Longrightarrow> nat a < R \<Longrightarrow> 0 \<le> b \<Longrightarrow> nat b < C \<Longrightarrow>
     py_get2 g a b = Inr (g ! nat a ! nat b)"
  by (simp add: shape_def py_get2_nth)

lemma shape_set2_int:
  "shape g R C \<Longrightarrow> 0 \<le> a \<Longrightarrow> nat a < R \<Longrightarrow> 0 \<le> b \<Longrightarrow> nat b < C \<Longrightarrow>
     py_set2 g a b v = Inr (g[nat a := (g ! nat a)[nat b := v]])"
  by (simp add: shape_def py_set2_nth)

lemma shape_nth_update2:
  "shape g R C \<Longrightarrow> a < R \<Longrightarrow> b < C \<Longrightarrow>
     g[a := (g ! a)[b := v]] ! a' ! b' = (if a' = a \<and> b' = b then v else g ! a' ! b')"
  by (simp add: shape_def nth_update2)

lemma kd_pos:
  assumes "sorted kv" and "kv ! nat i < kv ! nat (i + 1)" and "0 \<le> i"
    and "i + int r + 1 < int (length kv)" and "r < d" and "int d \<le> i + int r + 1"
  shows "0 < kd kv i d r"
proof -
  have "kv ! nat (i + int r + 1 - int d) \<le> kv ! nat i"
    using assms by (intro sorted_nth_le) simp_all
  moreover have "kv ! nat (i + 1) \<le> kv ! nat (i + int r + 1)"
    using assms by (intro sorted_nth_le) simp_all
  ultimately show ?thesis using assms(2) by (simp add: kd_def)
qed

lemma ders_ndu_inner:
  fixes ndu :: "real list list"
  assumes sh: "shape ndu P P" and j: "j < P" "0 < j"
    and ll: "length left = P" "length right = P"
    and lv: "\<And>t. 1 \<le> t \<Longrightarrow> t \<le> j \<Longrightarrow>
        left ! t = u - kv ! nat (i + 1 - int t) \<and> right ! t = kv ! nat (i + int t) - u"
    and up: "\<And>d r. d < j \<Longrightarrow> r \<le> d \<Longrightarrow> ndu ! r ! d = Bf kv i u d r"
    and lo: "\<And>d r. 1 \<le> d \<Longrightarrow> d < j \<Longrightarrow> r < d \<Longrightarrow> ndu ! d ! r = kd kv i d r"
    and nz: "\<And>r. r < j \<Longrightarrow> kd kv i j r \<noteq> 0"
  shows "\<exists>ndu' saved. for_loop (py_range 0 (0 + int j))
           (\<lambda>r (ndu, saved).
              ebind (py_get right (r + 1)) (\<lambda>rr. ebind (py_get left (int j - r)) (\<lambda>ll.
              ebind (py_set2 ndu (int j) r (rr + ll)) (\<lambda>ndu.
              ebind (py_get2 ndu r (int j - 1)) (\<lambda>x. ebind (py_get2 ndu (int j) r) (\<lambda>y.
              ebind (py_div x y) (\<lambda>temp.
              ebind (py_set2 ndu r (int j) (saved + rr * temp)) (\<lambda>ndu.
              Inr (ndu, ll * temp))))))))) (ndu, 0) = Inr (ndu', saved)
         \<and> shape ndu' P P
         \<and> (\<forall>d r. d < j \<and> r \<le> d \<longrightarrow> ndu' ! r ! d = Bf kv i u d r)
         \<and> (\<forall>d r. 1 \<le> d \<and> d < j \<and> r < d \<longrightarrow> ndu' ! d ! r = kd kv i d r)
         \<and> (\<forall>r < j. ndu' ! j ! r = kd kv i j r \<and> ndu' ! r ! j = Bf kv i u j r)
         \<and> saved = (u - kv ! nat i) * (Bf kv i u (j - 1) (j - 1) / kd kv i j (j - 1))"
proof -
  obtain t where t: "j = Suc t" using j(2) by (cases j) simp_all
  define I where "I = (\<lambda>r' (st :: real list list \<times> real).
     case st of (ndu', saved) \<Rightarrow>
       shape ndu' P P
       \<and> (\<forall>d r. d < j \<and> r \<le> d \<longrightarrow> ndu' ! r ! d = Bf kv i u d r)
       \<and> (\<forall>d r. 1 \<le> d \<and> d < j \<and> r < d \<longrightarrow> ndu' ! d ! r = kd kv i d r)
       \<and> (\<forall>r < r'. ndu' ! j ! r = kd kv i j r \<and> ndu' ! r ! j = Bf kv i u j r)
       \<and> saved = (if r' = 0 then 0
                  else (u - kv ! nat (i + int r' - int j))
                         * (Bf kv i u t (r' - 1) / kd kv i j (r' - 1))))"
  have "\<exists>st. for_loop (py_range 0 (0 + int j))
           (\<lambda>r (ndu, saved).
              ebind (py_get right (r + 1)) (\<lambda>rr. ebind (py_get left (int j - r)) (\<lambda>ll.
              ebind (py_set2 ndu (int j) r (rr + ll)) (\<lambda>ndu.
              ebind (py_get2 ndu r (int j - 1)) (\<lambda>x. ebind (py_get2 ndu (int j) r) (\<lambda>y.
              ebind (py_div x y) (\<lambda>temp.
              ebind (py_set2 ndu r (int j) (saved + rr * temp)) (\<lambda>ndu.
              Inr (ndu, ll * temp))))))))) (ndu, 0) = Inr st \<and> I j st"
  proof (rule for_loop_total)
    show "I 0 (ndu, 0)" using sh up lo by (simp add: I_def)
  next
    fix r st
    assume r: "r < j" and Ir: "I r st"
    obtain M saved where st: "st = (M, saved)" by (cases st)
    from Ir have shM: "shape M P P"
      and upM: "\<And>d r. d < j \<Longrightarrow> r \<le> d \<Longrightarrow> M ! r ! d = Bf kv i u d r"
      and loM: "\<And>d r. 1 \<le> d \<Longrightarrow> d < j \<Longrightarrow> r < d \<Longrightarrow> M ! d ! r = kd kv i d r"
      and rowM: "\<And>r'. r' < r \<Longrightarrow> M ! j ! r' = kd kv i j r' \<and> M ! r' ! j = Bf kv i u j r'"
      and sv: "saved = (if r = 0 then 0
                  else (u - kv ! nat (i + int r - int j))
                         * (Bf kv i u t (r - 1) / kd kv i j (r - 1)))"
      by (simp_all add: I_def st)
    have rP: "r < P" using r j by simp
    define rr where "rr = kv ! nat (i + int r + 1) - u"
    define lf where "lf = u - kv ! nat (i + int r + 1 - int j)"
    have g1: "py_get right (0 + int r + 1) = Inr rr"
    proof -
      have "py_get right (int (Suc r)) = Inr (right ! Suc r)"
        using r ll j by (intro py_get_nat) simp
      moreover have "right ! Suc r = rr" using lv [of "Suc r"] r by (simp add: rr_def algebra_simps)
      ultimately show ?thesis by (simp add: add.commute)
    qed
    have g2: "py_get left (int j - (0 + int r)) = Inr lf"
    proof -
      have "py_get left (int (j - r)) = Inr (left ! (j - r))"
        using r ll j by (intro py_get_nat) simp
      moreover have "left ! (j - r) = lf"
        using lv [of "j - r"] r by (simp add: lf_def algebra_simps of_nat_diff)
      ultimately show ?thesis using r by (simp add: of_nat_diff)
    qed
    have d: "rr + lf = kd kv i j r" by (simp add: rr_def lf_def kd_def)
    define M1 where "M1 = M[j := (M ! j)[r := rr + lf]]"
    have s1: "py_set2 M (int j) (0 + int r) (rr + lf) = Inr M1"
      using shape_set2 [OF shM j(1) rP] by (simp add: M1_def)
    have shM1: "shape M1 P P" unfolding M1_def by (rule shape_update2 [OF shM])
    have M1v: "M1 ! a ! b = (if a = j \<and> b = r then rr + lf else M ! a ! b)" for a b
      unfolding M1_def by (rule shape_nth_update2 [OF shM j(1) rP])
    have g3: "py_get2 M1 (0 + int r) (int j - 1) = Inr (Bf kv i u t r)"
      using shape_get2 [OF shM1 rP, of t] j r upM [of t r] by (simp add: t M1v)
    have g4: "py_get2 M1 (int j) (0 + int r) = Inr (kd kv i j r)"
      using shape_get2 [OF shM1 j(1) rP] by (simp add: M1v d)
    define temp where "temp = Bf kv i u t r / kd kv i j r"
    have dv: "py_div (Bf kv i u t r) (kd kv i j r) = Inr temp"
      using nz [OF r] by (simp add: py_div_def temp_def)
    define M2 where "M2 = M1[r := (M1 ! r)[j := saved + rr * temp]]"
    have s2: "py_set2 M1 (0 + int r) (int j) (saved + rr * temp) = Inr M2"
      using shape_set2 [OF shM1 rP j(1)] by (simp add: M2_def)
    have shM2: "shape M2 P P" unfolding M2_def by (rule shape_update2 [OF shM1])
    have M2v: "M2 ! a ! b = (if a = r \<and> b = j then saved + rr * temp else M1 ! a ! b)" for a b
      unfolding M2_def by (rule shape_nth_update2 [OF shM1 rP j(1)])
    have bf: "saved + rr * temp = Bf kv i u j r"
      using r by (simp add: t sv rr_def temp_def algebra_simps)
    have "I (Suc r) (M2, lf * temp)"
      unfolding I_def
    proof (simp only: prod.case, intro conjI allI impI)
      show "shape M2 P P" by (rule shM2)
    next
      fix d' r' assume "d' < j \<and> r' \<le> d'"
      then show "M2 ! r' ! d' = Bf kv i u d' r'"
        using upM [of d' r'] by (auto simp add: M2v M1v)
    next
      fix d' r' assume "1 \<le> d' \<and> d' < j \<and> r' < d'"
      then show "M2 ! d' ! r' = kd kv i d' r'"
        using loM [of d' r'] by (auto simp add: M2v M1v)
    next
      fix r' assume r': "r' < Suc r"
      show "M2 ! j ! r' = kd kv i j r'"
        using r' r rowM [of r'] d by (cases "r' = r") (auto simp add: M2v M1v)
      show "M2 ! r' ! j = Bf kv i u j r'"
        using r' r rowM [of r'] bf by (cases "r' = r") (auto simp add: M2v M1v)
    next
      show "lf * temp = (if Suc r = 0 then 0
                  else (u - kv ! nat (i + int (Suc r) - int j))
                         * (Bf kv i u t (Suc r - 1) / kd kv i j (Suc r - 1)))"
        by (simp add: lf_def temp_def algebra_simps)
    qed
    then show "\<exists>s'. (case st of (ndu, saved) \<Rightarrow>
              ebind (py_get right (0 + int r + 1)) (\<lambda>rr. ebind (py_get left (int j - (0 + int r))) (\<lambda>ll.
              ebind (py_set2 ndu (int j) (0 + int r) (rr + ll)) (\<lambda>ndu.
              ebind (py_get2 ndu (0 + int r) (int j - 1)) (\<lambda>x. ebind (py_get2 ndu (int j) (0 + int r)) (\<lambda>y.
              ebind (py_div x y) (\<lambda>temp.
              ebind (py_set2 ndu (0 + int r) (int j) (saved + rr * temp)) (\<lambda>ndu.
              Inr (ndu, ll * temp))))))))) = Inr s' \<and> I (Suc r) s'"
      unfolding st prod.case g1 g2 ebind_simps s1 g3 g4 dv s2 by simp
  qed
  then obtain st where st: "for_loop (py_range 0 (0 + int j))
           (\<lambda>r (ndu, saved).
              ebind (py_get right (r + 1)) (\<lambda>rr. ebind (py_get left (int j - r)) (\<lambda>ll.
              ebind (py_set2 ndu (int j) r (rr + ll)) (\<lambda>ndu.
              ebind (py_get2 ndu r (int j - 1)) (\<lambda>x. ebind (py_get2 ndu (int j) r) (\<lambda>y.
              ebind (py_div x y) (\<lambda>temp.
              ebind (py_set2 ndu r (int j) (saved + rr * temp)) (\<lambda>ndu.
              Inr (ndu, ll * temp))))))))) (ndu, 0) = Inr st" and I: "I j st" by blast
  obtain M saved where M: "st = (M, saved)" by (cases st)
  show ?thesis
    apply (rule exI [of _ M], rule exI [of _ saved])
    using st I j(2) unfolding M I_def by (simp add: t)
qed

lemma ders_ndu_value:
  assumes ok: "knots_ok p kv n" and k: "p \<le> i" "i < n"
    and span: "kv ! nat i < kv ! nat (i + 1)"
  shows "\<exists>ndu. ders_ndu p kv i u = Inr ndu \<and> shape ndu (Suc (nat p)) (Suc (nat p))
           \<and> (\<forall>d r. d \<le> nat p \<and> r \<le> d \<longrightarrow> ndu ! r ! d = Bf kv i u d r)
           \<and> (\<forall>d r. 1 \<le> d \<and> d \<le> nat p \<and> r < d \<longrightarrow> ndu ! d ! r = kd kv i d r)"
proof -
  define P where "P = Suc (nat p)"
  have p0: "0 \<le> p" and pn: "p + 1 \<le> n" and lenkv: "int (length kv) = n + p + 1"
    and srt: "sorted kv"
    using ok by (simp_all add: knots_ok_def)
  define z where "z = replicate P (0::real)"
  define ndu0 where "ndu0 = (replicate P z)[0 := z[0 := 1]]"
  have nP: "nat (p + 1) = P" using p0 by (simp add: P_def nat_add_distrib)
  have init: "py_set2 (replicate P z) 0 0 1 = Inr ndu0"
    using py_set2_nat [of 0 "replicate P z" 0 1] by (simp add: ndu0_def z_def P_def)
  have sh0: "shape ndu0 P P"
    by (auto simp add: ndu0_def shape_def nth_list_update z_def)
  define I where "I = (\<lambda>t (st :: real list list \<times> real list \<times> real list).
     case st of (ndu, left, right) \<Rightarrow>
       shape ndu P P \<and> length left = P \<and> length right = P
       \<and> (\<forall>t'. 1 \<le> t' \<and> t' \<le> t \<longrightarrow>
             left ! t' = u - kv ! nat (i + 1 - int t') \<and> right ! t' = kv ! nat (i + int t') - u)
       \<and> (\<forall>d r. d \<le> t \<and> r \<le> d \<longrightarrow> ndu ! r ! d = Bf kv i u d r)
       \<and> (\<forall>d r. 1 \<le> d \<and> d \<le> t \<and> r < d \<longrightarrow> ndu ! d ! r = kd kv i d r))"
  have rng: "py_range 1 (p + 1) = py_range 1 (1 + int (nat p))"
    using p0 by (intro py_range_len) simp_all
  have "\<exists>st. for_loop (py_range 1 (1 + int (nat p)))
           (\<lambda>j (ndu, left, right).
              ebind (py_get kv (i + 1 - j)) (\<lambda>a. ebind (py_set left j (u - a)) (\<lambda>left.
              ebind (py_get kv (i + j)) (\<lambda>b. ebind (py_set right j (b - u)) (\<lambda>right.
              ebind
                (for_loop (py_range 0 j)
                   (\<lambda>r (ndu, saved).
                      ebind (py_get right (r + 1)) (\<lambda>rr. ebind (py_get left (j - r)) (\<lambda>ll.
                      ebind (py_set2 ndu j r (rr + ll)) (\<lambda>ndu.
                      ebind (py_get2 ndu r (j - 1)) (\<lambda>x. ebind (py_get2 ndu j r) (\<lambda>y.
                      ebind (py_div x y) (\<lambda>temp.
                      ebind (py_set2 ndu r j (saved + rr * temp)) (\<lambda>ndu.
                      Inr (ndu, ll * temp))))))))) (ndu, 0))
                (\<lambda>(ndu, saved). ebind (py_set2 ndu j j saved) (\<lambda>ndu.
                   Inr (ndu, left, right))))))))
           (ndu0, z, z) = Inr st \<and> I (nat p) st"
  proof (rule for_loop_total)
    show "I 0 (ndu0, z, z)"
      using sh0 by (simp add: I_def z_def ndu0_def P_def)
  next
    fix t st
    assume t: "t < nat p" and It: "I t st"
    obtain M left right where st: "st = (M, left, right)" by (cases st)
    from It have shM: "shape M P P" and len: "length left = P" "length right = P"
      and lv: "\<And>t'. 1 \<le> t' \<Longrightarrow> t' \<le> t \<Longrightarrow>
             left ! t' = u - kv ! nat (i + 1 - int t') \<and> right ! t' = kv ! nat (i + int t') - u"
      and upM: "\<And>d r. d \<le> t \<Longrightarrow> r \<le> d \<Longrightarrow> M ! r ! d = Bf kv i u d r"
      and loM: "\<And>d r. 1 \<le> d \<Longrightarrow> d \<le> t \<Longrightarrow> r < d \<Longrightarrow> M ! d ! r = kd kv i d r"
      by (simp_all add: I_def st)
    define j where "j = Suc t"
    have jP: "j < P" "0 < j" using t by (simp_all add: j_def P_def)
    define left' where "left' = left[j := u - kv ! nat (i + 1 - int j)]"
    define right' where "right' = right[j := kv ! nat (i + int j) - u]"
    have g1: "py_get kv (i + 1 - (1 + int t)) = Inr (kv ! nat (i + 1 - int j))"
      using t k p0 lenkv by (simp add: py_get_nth j_def)
    have g2: "py_get kv (i + (1 + int t)) = Inr (kv ! nat (i + int j))"
      using t k p0 lenkv by (simp add: py_get_nth j_def)
    have s1: "py_set left (1 + int t) (u - kv ! nat (i + 1 - int j)) = Inr left'"
      using py_set_nat [of j left] jP len by (simp add: left'_def j_def)
    have s2: "py_set right (1 + int t) (kv ! nat (i + int j) - u) = Inr right'"
      using py_set_nat [of j right] jP len by (simp add: right'_def j_def)
    have len': "length left' = P" "length right' = P" using len by (simp_all add: left'_def right'_def)
    have lv': "left' ! t' = u - kv ! nat (i + 1 - int t') \<and> right' ! t' = kv ! nat (i + int t') - u"
      if "1 \<le> t'" "t' \<le> j" for t'
    proof (cases "t' = j")
      case True
      then show ?thesis using len jP by (simp add: left'_def right'_def)
    next
      case False
      then show ?thesis using that lv [of t'] by (simp add: left'_def right'_def j_def)
    qed
    have "\<exists>ndu' saved. for_loop (py_range 0 (0 + int j))
           (\<lambda>r (ndu, saved).
              ebind (py_get right' (r + 1)) (\<lambda>rr. ebind (py_get left' (int j - r)) (\<lambda>ll.
              ebind (py_set2 ndu (int j) r (rr + ll)) (\<lambda>ndu.
              ebind (py_get2 ndu r (int j - 1)) (\<lambda>x. ebind (py_get2 ndu (int j) r) (\<lambda>y.
              ebind (py_div x y) (\<lambda>temp.
              ebind (py_set2 ndu r (int j) (saved + rr * temp)) (\<lambda>ndu.
              Inr (ndu, ll * temp))))))))) (M, 0) = Inr (ndu', saved)
         \<and> shape ndu' P P
         \<and> (\<forall>d r. d < j \<and> r \<le> d \<longrightarrow> ndu' ! r ! d = Bf kv i u d r)
         \<and> (\<forall>d r. 1 \<le> d \<and> d < j \<and> r < d \<longrightarrow> ndu' ! d ! r = kd kv i d r)
         \<and> (\<forall>r < j. ndu' ! j ! r = kd kv i j r \<and> ndu' ! r ! j = Bf kv i u j r)
         \<and> saved = (u - kv ! nat i) * (Bf kv i u (j - 1) (j - 1) / kd kv i j (j - 1))"
    proof (rule ders_ndu_inner [OF shM jP len' lv'])
      fix d r assume "d < j" "r \<le> d"
      then show "M ! r ! d = Bf kv i u d r" using upM [of d r] by (simp add: j_def)
    next
      fix d r :: nat assume "1 \<le> d" "d < j" "r < d"
      then show "M ! d ! r = kd kv i d r" using loM [of d r] by (simp add: j_def)
    next
      fix r assume "r < j"
      then have "0 < kd kv i j r"
        using srt span k p0 lenkv t by (intro kd_pos) (simp_all add: j_def)
      then show "kd kv i j r \<noteq> 0" by simp
    qed
    then obtain M' saved where
      inner: "for_loop (py_range 0 (0 + int j))
           (\<lambda>r (ndu, saved).
              ebind (py_get right' (r + 1)) (\<lambda>rr. ebind (py_get left' (int j - r)) (\<lambda>ll.
              ebind (py_set2 ndu (int j) r (rr + ll)) (\<lambda>ndu.
              ebind (py_get2 ndu r (int j - 1)) (\<lambda>x. ebind (py_get2 ndu (int j) r) (\<lambda>y.
              ebind (py_div x y) (\<lambda>temp.
              ebind (py_set2 ndu r (int j) (saved + rr * temp)) (\<lambda>ndu.
              Inr (ndu, ll * temp))))))))) (M, 0) = Inr (M', saved)"
      and shM': "shape M' P P"
      and upM': "\<And>d r. d < j \<Longrightarrow> r \<le> d \<Longrightarrow> M' ! r ! d = Bf kv i u d r"
      and loM': "\<And>d r. 1 \<le> d \<Longrightarrow> d < j \<Longrightarrow> r < d \<Longrightarrow> M' ! d ! r = kd kv i d r"
      and rowM': "\<And>r. r < j \<Longrightarrow> M' ! j ! r = kd kv i j r \<and> M' ! r ! j = Bf kv i u j r"
      and sv: "saved = (u - kv ! nat i) * (Bf kv i u (j - 1) (j - 1) / kd kv i j (j - 1))"
      by blast
    define M2 where "M2 = M'[j := (M' ! j)[j := saved]]"
    have s3: "py_set2 M' (1 + int t) (1 + int t) saved = Inr M2"
      using shape_set2 [OF shM' jP(1) jP(1)] by (simp add: M2_def j_def)
    have shM2: "shape M2 P P" unfolding M2_def by (rule shape_update2 [OF shM'])
    have M2v: "M2 ! a ! b = (if a = j \<and> b = j then saved else M' ! a ! b)" for a b
      unfolding M2_def by (rule shape_nth_update2 [OF shM' jP(1) jP(1)])
    have bjj: "saved = Bf kv i u j j" by (simp add: sv j_def)
    have "I (Suc t) (M2, left', right')"
      unfolding I_def
    proof (simp only: prod.case, intro conjI allI impI)
      show "shape M2 P P" by (rule shM2)
      show "length left' = P" "length right' = P" by (rule len')+
    next
      fix t' assume "1 \<le> t' \<and> t' \<le> Suc t"
      then show "left' ! t' = u - kv ! nat (i + 1 - int t')"
        "right' ! t' = kv ! nat (i + int t') - u"
        using lv' [of t'] by (simp_all add: j_def)
    next
      fix d r assume a: "d \<le> Suc t \<and> r \<le> d"
      show "M2 ! r ! d = Bf kv i u d r"
      proof (cases "d = j")
        case True
        then show ?thesis using a rowM' [of r] bjj by (cases "r = j") (simp_all add: M2v)
      next
        case False
        then show ?thesis using a upM' [of d r] by (simp add: M2v j_def)
      qed
    next
      fix d r assume a: "1 \<le> d \<and> d \<le> Suc t \<and> r < d"
      show "M2 ! d ! r = kd kv i d r"
      proof (cases "d = j")
        case True
        then show ?thesis using a rowM' [of r] by (simp add: M2v)
      next
        case False
        then show ?thesis using a loM' [of d r] by (simp add: M2v j_def)
      qed
    qed
    then show "\<exists>s'. (case st of (ndu, left, right) \<Rightarrow>
              ebind (py_get kv (i + 1 - (1 + int t))) (\<lambda>a. ebind (py_set left (1 + int t) (u - a)) (\<lambda>left.
              ebind (py_get kv (i + (1 + int t))) (\<lambda>b. ebind (py_set right (1 + int t) (b - u)) (\<lambda>right.
              ebind
                (for_loop (py_range 0 (1 + int t))
                   (\<lambda>r (ndu, saved).
                      ebind (py_get right (r + 1)) (\<lambda>rr. ebind (py_get left (1 + int t - r)) (\<lambda>ll.
                      ebind (py_set2 ndu (1 + int t) r (rr + ll)) (\<lambda>ndu.
                      ebind (py_get2 ndu r (1 + int t - 1)) (\<lambda>x. ebind (py_get2 ndu (1 + int t) r) (\<lambda>y.
                      ebind (py_div x y) (\<lambda>temp.
                      ebind (py_set2 ndu r (1 + int t) (saved + rr * temp)) (\<lambda>ndu.
                      Inr (ndu, ll * temp))))))))) (ndu, 0))
                (\<lambda>(ndu, saved). ebind (py_set2 ndu (1 + int t) (1 + int t) saved) (\<lambda>ndu.
                   Inr (ndu, left, right)))))))) = Inr s' \<and> I (Suc t) s'"
      using inner g1 g2 s1 s2 s3 unfolding st prod.case j_def
      by simp
  qed
  then obtain st where st: "for_loop (py_range 1 (1 + int (nat p)))
           (\<lambda>j (ndu, left, right).
              ebind (py_get kv (i + 1 - j)) (\<lambda>a. ebind (py_set left j (u - a)) (\<lambda>left.
              ebind (py_get kv (i + j)) (\<lambda>b. ebind (py_set right j (b - u)) (\<lambda>right.
              ebind
                (for_loop (py_range 0 j)
                   (\<lambda>r (ndu, saved).
                      ebind (py_get right (r + 1)) (\<lambda>rr. ebind (py_get left (j - r)) (\<lambda>ll.
                      ebind (py_set2 ndu j r (rr + ll)) (\<lambda>ndu.
                      ebind (py_get2 ndu r (j - 1)) (\<lambda>x. ebind (py_get2 ndu j r) (\<lambda>y.
                      ebind (py_div x y) (\<lambda>temp.
                      ebind (py_set2 ndu r j (saved + rr * temp)) (\<lambda>ndu.
                      Inr (ndu, ll * temp))))))))) (ndu, 0))
                (\<lambda>(ndu, saved). ebind (py_set2 ndu j j saved) (\<lambda>ndu.
                   Inr (ndu, left, right))))))))
           (ndu0, z, z) = Inr st" and I: "I (nat p) st" by blast
  obtain M left right where M: "st = (M, left, right)" by (cases st)
  have "ders_ndu p kv i u = Inr M"
    unfolding ders_ndu_def Let_def nP rng z_def [symmetric] init ebind_simps st M
    by simp
  then show ?thesis using I unfolding M I_def P_def by simp
qed

section \<open>The table of basis-function derivatives\<close>

lemma ndu_table_upper:
  "ndu_table kv i u pn ndu \<Longrightarrow> r \<le> d \<Longrightarrow> d \<le> pn \<Longrightarrow>
     py_get2 ndu (int r) (int d) = Inr (Bf kv i u d r)"
  using shape_get2 [of ndu "Suc pn" "Suc pn" r d] by (simp add: ndu_table_def)

lemma ndu_table_lower:
  "ndu_table kv i u pn ndu \<Longrightarrow> r < d \<Longrightarrow> d \<le> pn \<Longrightarrow>
     py_get2 ndu (int d) (int r) = Inr (kd kv i d r) \<and> kd kv i d r \<noteq> 0"
  using shape_get2 [of ndu "Suc pn" "Suc pn" d r] by (simp add: ndu_table_def)

lemma Acf_neg: "x < 0 \<Longrightarrow> Acf kv i p r k x = 0"
  by (cases k) simp_all

lemma Acf_above: "int k < x \<Longrightarrow> Acf kv i p r k x = 0"
  by (cases k) simp_all

lemma Acf_outside:
  "\<not> (int (Suc k) \<le> int r + x \<and> int r + x \<le> int p) \<Longrightarrow> Acf kv i p r (Suc k) x = 0"
  by auto

lemma Acf_inside:
  "0 \<le> x \<Longrightarrow> x \<le> int (Suc k) \<Longrightarrow> int (Suc k) \<le> int r + x \<Longrightarrow> int r + x \<le> int p \<Longrightarrow>
     Acf kv i p r (Suc k) x =
       (Acf kv i p r k x - Acf kv i p r k (x - 1)) / kd kv i (p - k) (nat (int r + x - int (Suc k)))"
  by simp

declare Acf.simps(2) [simp del]

lemma ders_mid_step:
  assumes nd: "ndu_table kv i u pn ndu"
    and k: "k = Suc k0" "k \<le> pn" and x: "1 \<le> x" "x \<le> k0" "k \<le> r + x" "r + x \<le> pn"
    and sh: "shape a 2 (Suc pn)" and s: "s1 < 2" "s2 < 2"
    and a1: "a ! s1 ! x = Acf kv i pn r k0 (int x)"
    and a0: "a ! s1 ! (x - 1) = Acf kv i pn r k0 (int x - 1)"
  shows "ders_mid (int pn) ndu (int r) (int k) (int s1) (int s2) (int x) (a, d) =
           Inr (a[s2 := (a ! s2)[x := Acf kv i pn r k (int x)]],
                d + Acf kv i pn r k (int x) * Bf kv i u (pn - k) (r + x - k))"
proof -
  have xP: "x < Suc pn" "x - 1 < Suc pn" using x k by simp_all
  have e1: "py_get2 a (int s1) (int x) = Inr (Acf kv i pn r k0 (int x))"
    using shape_get2 [OF sh s(1) xP(1)] a1 by simp
  have e2: "py_get2 a (int s1) (int x - 1) = Inr (Acf kv i pn r k0 (int x - 1))"
    using shape_get2 [OF sh s(1) xP(2)] a0 x by (simp add: of_nat_diff)
  have i1: "int pn - int k + 1 = int (pn - k0)" using k by simp
  have i2: "int r - int k + int x = int (r + x - k)" using x by simp
  have i3: "int pn - int k = int (pn - k)" using k by simp
  from ndu_table_lower [OF nd, of "r + x - k" "pn - k0"]
  have e3: "py_get2 ndu (int pn - int k + 1) (int r - int k + int x) = Inr (kd kv i (pn - k0) (r + x - k))"
    and nz: "kd kv i (pn - k0) (r + x - k) \<noteq> 0"
    unfolding i1 i2 using x k by simp_all
  have q: "Acf kv i pn r k (int x) =
             (Acf kv i pn r k0 (int x) - Acf kv i pn r k0 (int x - 1)) / kd kv i (pn - k0) (r + x - k)"
  proof -
    have c: "0 \<le> int x" "int x \<le> int (Suc k0)" "int (Suc k0) \<le> int r + int x"
      "int r + int x \<le> int pn" using x k by simp_all
    have n: "nat (int r + int x - int (Suc k0)) = r + x - Suc k0" using x k by linarith
    show ?thesis unfolding k(1) Acf_inside [OF c] n ..
  qed
  have e4: "py_div (Acf kv i pn r k0 (int x) - Acf kv i pn r k0 (int x - 1))
              (kd kv i (pn - k0) (r + x - k)) = Inr (Acf kv i pn r k (int x))"
    using nz by (simp add: py_div_def q)
  have e5: "py_set2 a (int s2) (int x) v = Inr (a[s2 := (a ! s2)[x := v]])" for v
    by (rule shape_set2 [OF sh s(2) xP(1)])
  from ndu_table_upper [OF nd, of "r + x - k" "pn - k"]
  have e6: "py_get2 ndu (int r - int k + int x) (int pn - int k) = Inr (Bf kv i u (pn - k) (r + x - k))"
    unfolding i2 i3 using x k by simp
  show ?thesis
    unfolding ders_mid_def Let_def prod.case
    by (simp only: e1 e2 e3 e4 e5 e6 ebind_simps)
qed

lemma ders_first_value:
  assumes nd: "ndu_table kv i u pn ndu"
    and k: "k = Suc k0" "k \<le> pn" and r: "r \<le> pn"
    and sh: "shape a 2 (Suc pn)" and s: "s1 < 2" "s2 < 2"
    and a0: "k \<le> r \<Longrightarrow> a ! s1 ! 0 = Acf kv i pn r k0 0"
  shows "ders_first (int pn) ndu (int r) (int k) (int s1) (int s2) a =
           Inr (if k \<le> r then a[s2 := (a ! s2)[0 := Acf kv i pn r k 0]] else a,
                Acf kv i pn r k 0 * Bf kv i u (pn - k) (r - k))"
proof (cases "k \<le> r")
  case True
  have e1: "py_get2 a (int s1) 0 = Inr (Acf kv i pn r k0 0)"
    using shape_get2 [OF sh s(1), of 0] a0 [OF True] by simp
  have i1: "int pn - int k + 1 = int (pn - k0)" using k by simp
  have i2: "int r - int k = int (r - k)" using True by simp
  have i3: "int pn - int k = int (pn - k)" using k by simp
  from ndu_table_lower [OF nd, of "r - k" "pn - k0"]
  have e3: "py_get2 ndu (int pn - int k + 1) (int r - int k) = Inr (kd kv i (pn - k0) (r - k))"
    and nz: "kd kv i (pn - k0) (r - k) \<noteq> 0"
    unfolding i1 i2 using True k r by simp_all
  have q: "Acf kv i pn r k 0 = Acf kv i pn r k0 0 / kd kv i (pn - k0) (r - k)"
  proof -
    have c: "(0::int) \<le> 0" "0 \<le> int (Suc k0)" "int (Suc k0) \<le> int r + 0"
      "int r + 0 \<le> int pn" using True k r by simp_all
    have n: "nat (int r + 0 - int (Suc k0)) = r - Suc k0" by linarith
    show ?thesis unfolding k(1) Acf_inside [OF c] n by (simp add: Acf_neg)
  qed
  have e4: "py_div (Acf kv i pn r k0 0) (kd kv i (pn - k0) (r - k)) = Inr (Acf kv i pn r k 0)"
    using nz by (simp add: py_div_def q)
  have e5: "py_set2 a (int s2) 0 v = Inr (a[s2 := (a ! s2)[0 := v]])" for v
    using shape_set2 [OF sh s(2), of 0 v] by simp
  from ndu_table_upper [OF nd, of "r - k" "pn - k"]
  have e6: "py_get2 ndu (int r - int k) (int pn - int k) = Inr (Bf kv i u (pn - k) (r - k))"
    unfolding i2 i3 using True k r by simp
  have c: "int k \<le> int r" using True by simp
  show ?thesis
    unfolding ders_first_def Let_def
    by (simp only: c if_True e1 e3 e4 e5 e6 ebind_simps True)
next
  case False
  then have "Acf kv i pn r k 0 = 0" unfolding k(1) by (intro Acf_outside) simp
  then show ?thesis using False by (simp add: ders_first_def)
qed

lemma ders_last_value:
  assumes nd: "ndu_table kv i u pn ndu"
    and k: "k = Suc k0" "k \<le> pn" and r: "r \<le> pn"
    and sh: "shape a 2 (Suc pn)" and s: "s1 < 2" "s2 < 2"
    and a0: "r + k \<le> pn \<Longrightarrow> a ! s1 ! k0 = Acf kv i pn r k0 (int k0)"
  shows "ders_last (int pn) ndu (int r) (int k) (int s1) (int s2) (a, d) =
           Inr (if r + k \<le> pn then a[s2 := (a ! s2)[k := Acf kv i pn r k (int k)]] else a,
                d + Acf kv i pn r k (int k) * Bf kv i u (pn - k) r)"
proof (cases "r + k \<le> pn")
  case True
  have kP: "k0 < Suc pn" "k < Suc pn" using k by simp_all
  have e1: "py_get2 a (int s1) (int k - 1) = Inr (Acf kv i pn r k0 (int k0))"
    using shape_get2 [OF sh s(1) kP(1)] a0 [OF True] by (simp add: k(1))
  have i1: "int pn - int k + 1 = int (pn - k0)" using k by simp
  have i3: "int pn - int k = int (pn - k)" using k by simp
  from ndu_table_lower [OF nd, of r "pn - k0"]
  have e3: "py_get2 ndu (int pn - int k + 1) (int r) = Inr (kd kv i (pn - k0) r)"
    and nz: "kd kv i (pn - k0) r \<noteq> 0"
    unfolding i1 using True k r by simp_all
  have q: "Acf kv i pn r k (int k) = - Acf kv i pn r k0 (int k0) / kd kv i (pn - k0) r"
  proof -
    have c: "0 \<le> int (Suc k0)" "int (Suc k0) \<le> int (Suc k0)" "int (Suc k0) \<le> int r + int (Suc k0)"
      "int r + int (Suc k0) \<le> int pn" using True k r by simp_all
    have n: "nat (int r + int (Suc k0) - int (Suc k0)) = r" by simp
    have z: "Acf kv i pn r k0 (int (Suc k0)) = 0" by (rule Acf_above) simp
    have m: "int (Suc k0) - 1 = int k0" by simp
    show ?thesis unfolding k(1) Acf_inside [OF c] n z m by simp
  qed
  have e4: "py_div (- Acf kv i pn r k0 (int k0)) (kd kv i (pn - k0) r) = Inr (Acf kv i pn r k (int k))"
    using nz by (simp add: py_div_def q)
  have e5: "py_set2 a (int s2) (int k) v = Inr (a[s2 := (a ! s2)[k := v]])" for v
    by (rule shape_set2 [OF sh s(2) kP(2)])
  from ndu_table_upper [OF nd, of r "pn - k"]
  have e6: "py_get2 ndu (int r) (int pn - int k) = Inr (Bf kv i u (pn - k) r)"
    unfolding i3 using True k r by simp
  have c: "int r \<le> int pn - int k" using True by simp
  show ?thesis
    unfolding ders_last_def Let_def prod.case
    by (simp only: c if_True e1 e3 e4 e5 e6 ebind_simps True)
next
  case False
  then have "Acf kv i pn r k (int k) = 0" unfolding k(1) by (intro Acf_outside) simp
  moreover have "\<not> int r \<le> int pn - int k" using False by simp
  ultimately show ?thesis using False by (simp add: ders_last_def)
qed

lemma ders_mid_loop:
  assumes nd: "ndu_table kv i u pn ndu"
    and k: "k = Suc k0" "k \<le> pn"
    and sh: "shape a0 2 (Suc pn)" and s: "s1 < 2" "s2 < 2" "s1 \<noteq> s2"
    and rng: "1 \<le> J1" "J1 + m \<le> k"
      "\<And>x. J1 \<le> x \<Longrightarrow> x < J1 + m \<Longrightarrow> k \<le> r + x \<and> r + x \<le> pn"
    and av: "\<And>x. x \<le> k0 \<Longrightarrow> k0 \<le> r + x \<Longrightarrow> r + x \<le> pn
               \<Longrightarrow> a0 ! s1 ! x = Acf kv i pn r k0 (int x)"
  shows "\<exists>a'. for_loop (py_range (int J1) (int J1 + int m))
                 (ders_mid (int pn) ndu (int r) (int k) (int s1) (int s2)) (a0, d0)
               = Inr (a', d0 + (\<Sum>x = J1..<J1 + m.
                          Acf kv i pn r k (int x) * Bf kv i u (pn - k) (r + x - k)))
           \<and> shape a' 2 (Suc pn) \<and> a' ! s1 = a0 ! s1
           \<and> (\<forall>x. J1 \<le> x \<and> x < J1 + m \<longrightarrow> a' ! s2 ! x = Acf kv i pn r k (int x))
           \<and> (\<forall>x. \<not> (J1 \<le> x \<and> x < J1 + m) \<longrightarrow> a' ! s2 ! x = a0 ! s2 ! x)"
proof -
  define T where "T = (\<lambda>x. Acf kv i pn r k (int x) * Bf kv i u (pn - k) (r + x - k))"
  define I where "I = (\<lambda>t (st :: real list list \<times> real).
     case st of (a, d) \<Rightarrow>
       shape a 2 (Suc pn) \<and> a ! s1 = a0 ! s1
       \<and> (\<forall>x. J1 \<le> x \<and> x < J1 + t \<longrightarrow> a ! s2 ! x = Acf kv i pn r k (int x))
       \<and> (\<forall>x. \<not> (J1 \<le> x \<and> x < J1 + t) \<longrightarrow> a ! s2 ! x = a0 ! s2 ! x)
       \<and> d = d0 + (\<Sum>x = J1..<J1 + t. T x))"
  have "\<exists>st. for_loop (py_range (int J1) (int J1 + int m))
                 (ders_mid (int pn) ndu (int r) (int k) (int s1) (int s2)) (a0, d0) = Inr st
             \<and> I m st"
  proof (rule for_loop_total)
    show "I 0 (a0, d0)" using sh by (simp add: I_def)
  next
    fix t st
    assume t: "t < m" and It: "I t st"
    obtain a d where st: "st = (a, d)" by (cases st)
    from It have sha: "shape a 2 (Suc pn)" and row1: "a ! s1 = a0 ! s1"
      and dn: "\<And>x. J1 \<le> x \<Longrightarrow> x < J1 + t \<Longrightarrow> a ! s2 ! x = Acf kv i pn r k (int x)"
      and rest: "\<And>x. \<not> (J1 \<le> x \<and> x < J1 + t) \<Longrightarrow> a ! s2 ! x = a0 ! s2 ! x"
      and d: "d = d0 + (\<Sum>x = J1..<J1 + t. T x)"
      by (simp_all add: I_def st)
    define x where "x = J1 + t"
    have xr: "1 \<le> x" "x \<le> k0" "k \<le> r + x" "r + x \<le> pn"
      using rng(1,2) rng(3) [of x] t k by (simp_all add: x_def)
    have a1: "a ! s1 ! x = Acf kv i pn r k0 (int x)"
      unfolding row1 using xr k by (intro av) simp_all
    have a2: "a ! s1 ! (x - 1) = Acf kv i pn r k0 (int x - 1)"
    proof -
      have "a0 ! s1 ! (x - 1) = Acf kv i pn r k0 (int (x - 1))"
        using xr k by (intro av) simp_all
      then show ?thesis unfolding row1 using xr by (simp add: of_nat_diff)
    qed
    define a' where "a' = a[s2 := (a ! s2)[x := Acf kv i pn r k (int x)]]"
    have step: "ders_mid (int pn) ndu (int r) (int k) (int s1) (int s2) (int x) (a, d)
                  = Inr (a', d + T x)"
      unfolding a'_def T_def by (rule ders_mid_step [OF nd k xr sha s(1,2) a1 a2])
    have la: "length a = 2" "length (a ! s2) = Suc pn" using sha s by (simp_all add: shape_def)
    have "I (Suc t) (a', d + T x)"
      unfolding I_def
    proof (simp only: prod.case, intro conjI allI impI)
      show "shape a' 2 (Suc pn)" unfolding a'_def by (rule shape_update2 [OF sha])
      show "a' ! s1 = a0 ! s1" using s row1 by (simp add: a'_def)
    next
      fix y assume "J1 \<le> y \<and> y < J1 + Suc t"
      then show "a' ! s2 ! y = Acf kv i pn r k (int y)"
        using dn [of y] la s xr k by (cases "y = x") (simp_all add: a'_def x_def)
    next
      fix y assume "\<not> (J1 \<le> y \<and> y < J1 + Suc t)"
      then show "a' ! s2 ! y = a0 ! s2 ! y"
        using rest [of y] la s by (cases "y = x") (auto simp add: a'_def x_def)
    next
      show "d + T x = d0 + (\<Sum>x = J1..<J1 + Suc t. T x)" by (simp add: d x_def)
    qed
    moreover have "int J1 + int t = int x" by (simp add: x_def)
    ultimately show "\<exists>s'. ders_mid (int pn) ndu (int r) (int k) (int s1) (int s2) (int J1 + int t) st
              = Inr s' \<and> I (Suc t) s'"
      using step by (simp add: st)
  qed
  then obtain st where st: "for_loop (py_range (int J1) (int J1 + int m))
                 (ders_mid (int pn) ndu (int r) (int k) (int s1) (int s2)) (a0, d0) = Inr st"
    and I: "I m st" by blast
  obtain a d where ad: "st = (a, d)" by (cases st)
  show ?thesis
    apply (rule exI [of _ a])
    using st I unfolding ad I_def T_def by simp
qed

lemma py_range_nat_len: "py_range a b = py_range a (a + int (nat (b - a)))"
  by (cases "a \<le> b") (simp_all add: py_range_def)

lemma ders_round_value:
  assumes nd: "ndu_table kv i u pn ndu"
    and k: "k = Suc k0" "k \<le> pn" and r: "r \<le> pn"
    and sh: "shape a 2 (Suc pn)" and s: "s1 < 2" "s2 < 2" "s1 \<noteq> s2"
    and av: "\<And>x. x \<le> k0 \<Longrightarrow> k0 \<le> r + x \<Longrightarrow> r + x \<le> pn
               \<Longrightarrow> a ! s1 ! x = Acf kv i pn r k0 (int x)"
    and shd: "shape ders R (Suc pn)" "k < R"
  shows "\<exists>a'. ders_round (int pn) ndu (int r) (int k) (ders, a, int s1, int s2)
               = Inr (ders[k := (ders ! k)[r := (\<Sum>x \<le> k.
                          Acf kv i pn r k (int x) * Bf kv i u (pn - k) (r + x - k))]],
                      a', int s2, int s1)
           \<and> shape a' 2 (Suc pn)
           \<and> (\<forall>x. x \<le> k \<and> k \<le> r + x \<and> r + x \<le> pn \<longrightarrow> a' ! s2 ! x = Acf kv i pn r k (int x))"
proof -
  define T where "T = (\<lambda>x. Acf kv i pn r k (int x) * Bf kv i u (pn - k) (r + x - k))"
  define a1 where "a1 = (if k \<le> r then a[s2 := (a ! s2)[0 := Acf kv i pn r k 0]] else a)"
  have la: "length a = 2" "length (a ! s2) = Suc pn" using sh s by (simp_all add: shape_def)
  have first: "ders_first (int pn) ndu (int r) (int k) (int s1) (int s2) a = Inr (a1, T 0)"
  proof -
    have "a ! s1 ! 0 = Acf kv i pn r k0 0" if "k \<le> r" using av [of 0] that k r by simp
    from ders_first_value [OF nd k r sh s(1,2) this]
    show ?thesis unfolding a1_def T_def by simp
  qed
  have sh1: "shape a1 2 (Suc pn)" unfolding a1_def using sh by (simp add: shape_update2)
  have row1: "a1 ! s1 = a ! s1" using s la by (simp add: a1_def)
  have a1s2: "a1 ! s2 ! x = (if k \<le> r \<and> x = 0 then Acf kv i pn r k 0 else a ! s2 ! x)" for x
    using la s by (auto simp add: a1_def nth_list_update)
  define J1 where "J1 = (if k \<le> r + 1 then 1 else k - r)"
  define E where "E = (if r + k \<le> pn + 1 then k else pn - r + 1)"
  define m where "m = E - J1"
  have rngeq: "py_range (if - 1 \<le> int r - int k then 1 else - (int r - int k))
                 ((if int r - 1 \<le> int pn - int k then int k - 1 else int pn - int r) + 1)
               = py_range (int J1) (int J1 + int m)"
  proof -
    have 1: "(if - 1 \<le> int r - int k then 1 else - (int r - int k)) = int J1"
      by (simp add: J1_def)
    have 2: "(if int r - 1 \<le> int pn - int k then int k - 1 else int pn - int r) + 1 = int E"
      using r by (simp add: E_def)
    have 3: "nat (int E - int J1) = m" by (simp add: m_def)
    show ?thesis unfolding 1 2 using py_range_nat_len [of "int J1" "int E"] unfolding 3 .
  qed
  have J1: "1 \<le> J1" "J1 + m \<le> k" using k by (auto simp add: J1_def E_def m_def)
  have inr: "k \<le> r + x \<and> r + x \<le> pn" if "J1 \<le> x" "x < J1 + m" for x
    using that k by (auto simp add: J1_def E_def m_def split: if_splits)
  have outr: "\<not> (k \<le> r + x \<and> r + x \<le> pn)" if "1 \<le> x" "x < k" "\<not> (J1 \<le> x \<and> x < J1 + m)" for x
    using that k by (auto simp add: J1_def E_def m_def split: if_splits)
  have av1: "a1 ! s1 ! x = Acf kv i pn r k0 (int x)" if "x \<le> k0" "k0 \<le> r + x" "r + x \<le> pn" for x
    unfolding row1 using that by (rule av)
  from ders_mid_loop [OF nd k sh1 s J1 inr av1, of "T 0"]
  obtain a2 where
    mid: "for_loop (py_range (int J1) (int J1 + int m))
                 (ders_mid (int pn) ndu (int r) (int k) (int s1) (int s2)) (a1, T 0)
               = Inr (a2, T 0 + (\<Sum>x = J1..<J1 + m. T x))"
    and sh2: "shape a2 2 (Suc pn)" and row2: "a2 ! s1 = a1 ! s1"
    and in2: "\<And>x. J1 \<le> x \<Longrightarrow> x < J1 + m \<Longrightarrow> a2 ! s2 ! x = Acf kv i pn r k (int x)"
    and out2: "\<And>x. \<not> (J1 \<le> x \<and> x < J1 + m) \<Longrightarrow> a2 ! s2 ! x = a1 ! s2 ! x"
    unfolding T_def by blast
  define a3 where "a3 = (if r + k \<le> pn then a2[s2 := (a2 ! s2)[k := Acf kv i pn r k (int k)]] else a2)"
  have la2: "length a2 = 2" "length (a2 ! s2) = Suc pn" using sh2 s by (simp_all add: shape_def)
  have last: "ders_last (int pn) ndu (int r) (int k) (int s1) (int s2)
                (a2, T 0 + (\<Sum>x = J1..<J1 + m. T x))
              = Inr (a3, T 0 + (\<Sum>x = J1..<J1 + m. T x) + T k)"
  proof -
    have "a2 ! s1 ! k0 = Acf kv i pn r k0 (int k0)" if "r + k \<le> pn"
      unfolding row2 row1 using that k by (intro av) simp_all
    from ders_last_value [OF nd k r sh2 s(1,2) this]
    show ?thesis by (simp add: a3_def T_def)
  qed
  have sh3: "shape a3 2 (Suc pn)" unfolding a3_def using sh2 by (simp add: shape_update2)
  have a3s2: "a3 ! s2 ! x = (if r + k \<le> pn \<and> x = k then Acf kv i pn r k (int k) else a2 ! s2 ! x)"
    for x using la2 k s by (auto simp add: a3_def nth_list_update)
  have sum: "T 0 + (\<Sum>x = J1..<J1 + m. T x) + T k = (\<Sum>x \<le> k. T x)"
  proof -
    have "(\<Sum>x \<le> k. T x) = (\<Sum>x \<le> k0. T x) + T k" by (simp add: k(1))
    also have "(\<Sum>x \<le> k0. T x) = T 0 + (\<Sum>x = 1..<k. T x)"
      by (simp add: atMost_atLeast0 sum.atLeast_Suc_atMost k(1) atLeastLessThanSuc_atLeastAtMost)
    also have "(\<Sum>x = 1..<k. T x) = (\<Sum>x = J1..<J1 + m. T x)"
    proof (rule sum.mono_neutral_right)
      show "finite {1..<k}" by simp
      show "{J1..<J1 + m} \<subseteq> {1..<k}" using J1 by auto
      show "\<forall>x \<in> {1..<k} - {J1..<J1 + m}. T x = 0"
      proof
        fix x assume "x \<in> {1..<k} - {J1..<J1 + m}"
        then have "\<not> (k \<le> r + x \<and> r + x \<le> pn)" by (intro outr) auto
        then have "Acf kv i pn r k (int x) = 0" unfolding k(1) by (intro Acf_outside) linarith
        then show "T x = 0" by (simp add: T_def)
      qed
    qed
    finally show ?thesis by simp
  qed
  have rP: "r < Suc pn" using r by simp
  have set: "py_set2 ders (int k) (int r) v = Inr (ders[k := (ders ! k)[r := v]])" for v
    by (rule shape_set2 [OF shd rP])
  have res: "ders_round (int pn) ndu (int r) (int k) (ders, a, int s1, int s2)
               = Inr (ders[k := (ders ! k)[r := (\<Sum>x \<le> k. T x)]], a3, int s2, int s1)"
    unfolding ders_round_def Let_def prod.case
    by (simp only: first ebind_simps rngeq mid last prod.case set sum)
  have "a3 ! s2 ! x = Acf kv i pn r k (int x)"
    if xk: "x \<le> k" and kx: "k \<le> r + x" and xp: "r + x \<le> pn" for x
  proof -
    from xk consider "x = 0" | "x = k" | "1 \<le> x" "x < k" by fastforce
    then show ?thesis
    proof cases
      case 1
      then have "\<not> (J1 \<le> x \<and> x < J1 + m)" using J1 by simp
      then show ?thesis using kx xp 1 k by (simp add: a3s2 out2 a1s2)
    next
      case 2
      then show ?thesis using xp by (simp add: a3s2)
    next
      case 3
      then have "J1 \<le> x \<and> x < J1 + m" using outr [of x] kx xp by blast
      then show ?thesis using 3 by (simp add: a3s2 in2)
    qed
  qed
  then show ?thesis using res sh3 unfolding T_def by blast
qed

lemma ders_k_loop:
  assumes nd: "ndu_table kv i u pn ndu"
    and r: "r \<le> pn" and n: "n \<le> pn"
    and shd: "shape ders (Suc n) (Suc pn)" and sh: "shape a 2 (Suc pn)"
    and a00: "a ! 0 ! 0 = 1"
  shows "\<exists>ders' a' s1 s2.
           for_loop (py_range 1 (1 + int n)) (ders_round (int pn) ndu (int r)) (ders, a, 0, 1)
             = Inr (ders', a', s1, s2)
           \<and> shape ders' (Suc n) (Suc pn) \<and> shape a' 2 (Suc pn)
           \<and> (\<forall>k. 1 \<le> k \<and> k \<le> n \<longrightarrow> ders' ! k ! r = ders_sum kv i u pn k r)
           \<and> (\<forall>k r'. \<not> (1 \<le> k \<and> k \<le> n \<and> r' = r) \<longrightarrow> ders' ! k ! r' = ders ! k ! r')"
proof -
  define K where "K = (\<lambda>t (st :: real list list \<times> real list list \<times> int \<times> int).
     case st of (ders', a', s1, s2) \<Rightarrow>
       shape ders' (Suc n) (Suc pn) \<and> shape a' 2 (Suc pn)
       \<and> s1 = int (t mod 2) \<and> s2 = int (Suc t mod 2)
       \<and> (\<forall>x. x \<le> t \<and> t \<le> r + x \<and> r + x \<le> pn \<longrightarrow> a' ! (t mod 2) ! x = Acf kv i pn r t (int x))
       \<and> (\<forall>k. 1 \<le> k \<and> k \<le> t \<longrightarrow> ders' ! k ! r = ders_sum kv i u pn k r)
       \<and> (\<forall>k r'. \<not> (1 \<le> k \<and> k \<le> t \<and> r' = r) \<longrightarrow> ders' ! k ! r' = ders ! k ! r'))"
  have "\<exists>st. for_loop (py_range 1 (1 + int n)) (ders_round (int pn) ndu (int r)) (ders, a, 0, 1)
             = Inr st \<and> K n st"
  proof (rule for_loop_total)
    show "K 0 (ders, a, 0, 1)" using shd sh a00 by (simp add: K_def)
  next
    fix t st
    assume t: "t < n" and Kt: "K t st"
    obtain D A s1 s2 where st: "st = (D, A, s1, s2)" by (cases st)
    from Kt have shD: "shape D (Suc n) (Suc pn)" and shA: "shape A 2 (Suc pn)"
      and ss: "s1 = int (t mod 2)" "s2 = int (Suc t mod 2)"
      and av: "\<And>x. x \<le> t \<Longrightarrow> t \<le> r + x \<Longrightarrow> r + x \<le> pn
                 \<Longrightarrow> A ! (t mod 2) ! x = Acf kv i pn r t (int x)"
      and dn: "\<And>k. 1 \<le> k \<Longrightarrow> k \<le> t \<Longrightarrow> D ! k ! r = ders_sum kv i u pn k r"
      and rest: "\<And>k r'. \<not> (1 \<le> k \<and> k \<le> t \<and> r' = r) \<Longrightarrow> D ! k ! r' = ders ! k ! r'"
      by (simp_all add: K_def st)
    define k where "k = Suc t"
    have k: "k = Suc t" "k \<le> pn" "k < Suc n" using t n by (simp_all add: k_def)
    have s: "t mod 2 < 2" "Suc t mod 2 < 2" "t mod 2 \<noteq> Suc t mod 2" by presburger+
    from ders_round_value [OF nd k(1,2) r shA s av shD k(3)]
    obtain A' where
      round: "ders_round (int pn) ndu (int r) (int k) (D, A, int (t mod 2), int (Suc t mod 2))
               = Inr (D[k := (D ! k)[r := ders_sum kv i u pn k r]], A',
                      int (Suc t mod 2), int (t mod 2))"
      and shA': "shape A' 2 (Suc pn)"
      and av': "\<And>x. x \<le> k \<Longrightarrow> k \<le> r + x \<Longrightarrow> r + x \<le> pn
                  \<Longrightarrow> A' ! (Suc t mod 2) ! x = Acf kv i pn r k (int x)"
      unfolding ders_sum_def by blast
    define D' where "D' = D[k := (D ! k)[r := ders_sum kv i u pn k r]]"
    have rP: "r < Suc pn" using r by simp
    have D'v: "D' ! k' ! r' = (if k' = k \<and> r' = r then ders_sum kv i u pn k r else D ! k' ! r')"
      for k' r' unfolding D'_def by (rule shape_nth_update2 [OF shD k(3) rP])
    have m2: "Suc (Suc t) mod 2 = t mod 2" by presburger
    have "K (Suc t) (D', A', int (Suc t mod 2), int (t mod 2))"
      unfolding K_def
    proof (simp only: prod.case, intro conjI allI impI)
      show "shape D' (Suc n) (Suc pn)" unfolding D'_def by (rule shape_update2 [OF shD])
      show "shape A' 2 (Suc pn)" by (rule shA')
      show "int (Suc t mod 2) = int (Suc t mod 2)" ..
      show "int (t mod 2) = int (Suc (Suc t) mod 2)" by (simp only: m2)
    next
      fix x assume "x \<le> Suc t \<and> Suc t \<le> r + x \<and> r + x \<le> pn"
      then show "A' ! (Suc t mod 2) ! x = Acf kv i pn r (Suc t) (int x)"
        using av' [of x] by (simp add: k_def)
    next
      fix k' assume "1 \<le> k' \<and> k' \<le> Suc t"
      then show "D' ! k' ! r = ders_sum kv i u pn k' r"
        using dn [of k'] by (cases "k' = k") (simp_all add: D'v k_def)
    next
      fix k' r' assume "\<not> (1 \<le> k' \<and> k' \<le> Suc t \<and> r' = r)"
      then show "D' ! k' ! r' = ders ! k' ! r'"
        using rest [of k' r'] by (cases "k' = k") (auto simp add: D'v k_def)
    qed
    moreover have "1 + int t = int k" by (simp add: k_def)
    ultimately show "\<exists>s'. ders_round (int pn) ndu (int r) (1 + int t) st = Inr s' \<and> K (Suc t) s'"
      using round unfolding st ss D'_def by simp
  qed
  then obtain st where st: "for_loop (py_range 1 (1 + int n)) (ders_round (int pn) ndu (int r))
       (ders, a, 0, 1) = Inr st" and K: "K n st" by blast
  obtain D A s1 s2 where "st = (D, A, s1, s2)" by (cases st)
  then show ?thesis using st K unfolding K_def by auto
qed

lemma ders_table_value:
  assumes nd: "ndu_table kv i u pn ndu" and n: "n \<le> pn"
    and shd: "shape ders0 (Suc n) (Suc pn)"
  shows "\<exists>ders. ders_table (int pn) (int n) ndu ders0 = Inr ders
           \<and> shape ders (Suc n) (Suc pn)
           \<and> (\<forall>k r. 1 \<le> k \<and> k \<le> n \<and> r \<le> pn \<longrightarrow> ders ! k ! r = ders_sum kv i u pn k r)
           \<and> (\<forall>r. ders ! 0 ! r = ders0 ! 0 ! r)"
proof -
  define R where "R = (\<lambda>t (st :: real list list \<times> real list list).
     case st of (ders, a) \<Rightarrow>
       shape ders (Suc n) (Suc pn) \<and> shape a 2 (Suc pn)
       \<and> (\<forall>k r. 1 \<le> k \<and> k \<le> n \<and> r < t \<longrightarrow> ders ! k ! r = ders_sum kv i u pn k r)
       \<and> (\<forall>r. ders ! 0 ! r = ders0 ! 0 ! r))"
  have r1: "py_range 0 (int pn + 1) = py_range 0 (0 + int (Suc pn))" by (simp add: add.commute)
  have r2: "py_range 1 (int n + 1) = py_range 1 (1 + int n)" by (simp add: add.commute)
  have n1: "nat (int pn + 1) = Suc pn" by simp
  have "\<exists>st. for_loop (py_range 0 (0 + int (Suc pn)))
          (\<lambda>r (ders, a).
             ebind (py_set2 a 0 0 1) (\<lambda>a.
             ebind (for_loop (py_range 1 (1 + int n)) (ders_round (int pn) ndu r) (ders, a, 0, 1))
               (\<lambda>(ders, a, s1, s2). Inr (ders, a))))
          (ders0, replicate 2 (replicate (Suc pn) 0)) = Inr st \<and> R (Suc pn) st"
  proof (rule for_loop_total)
    show "R 0 (ders0, replicate 2 (replicate (Suc pn) 0))"
      using shd shape_replicate [of 2 "Suc pn" "0::real"] by (simp add: R_def del: replicate_Suc)
  next
    fix t st
    assume t: "t < Suc pn" and Rt: "R t st"
    obtain D A where st: "st = (D, A)" by (cases st)
    from Rt have shD: "shape D (Suc n) (Suc pn)" and shA: "shape A 2 (Suc pn)"
      and dn: "\<And>k r. 1 \<le> k \<Longrightarrow> k \<le> n \<Longrightarrow> r < t \<Longrightarrow> D ! k ! r = ders_sum kv i u pn k r"
      and row0: "\<And>r. D ! 0 ! r = ders0 ! 0 ! r"
      by (simp_all add: R_def st)
    define A1 where "A1 = A[0 := (A ! 0)[0 := 1]]"
    have set: "py_set2 A 0 0 1 = Inr A1"
      using shape_set2 [OF shA, of 0 0 1] by (simp add: A1_def)
    have shA1: "shape A1 2 (Suc pn)" unfolding A1_def by (rule shape_update2 [OF shA])
    have a00: "A1 ! 0 ! 0 = 1" using shA by (simp add: A1_def shape_def)
    have tp: "t \<le> pn" using t by simp
    from ders_k_loop [OF nd tp n shD shA1 a00]
    obtain D' A' s1 s2 where
      loop: "for_loop (py_range 1 (1 + int n)) (ders_round (int pn) ndu (int t)) (D, A1, 0, 1)
             = Inr (D', A', s1, s2)"
      and shD': "shape D' (Suc n) (Suc pn)" and shA': "shape A' 2 (Suc pn)"
      and new: "\<And>k. 1 \<le> k \<Longrightarrow> k \<le> n \<Longrightarrow> D' ! k ! t = ders_sum kv i u pn k t"
      and old: "\<And>k r'. \<not> (1 \<le> k \<and> k \<le> n \<and> r' = t) \<Longrightarrow> D' ! k ! r' = D ! k ! r'"
      by blast
    have "R (Suc t) (D', A')"
      unfolding R_def
    proof (simp only: prod.case, intro conjI allI impI)
      show "shape D' (Suc n) (Suc pn)" by (rule shD')
      show "shape A' 2 (Suc pn)" by (rule shA')
    next
      fix k r assume "1 \<le> k \<and> k \<le> n \<and> r < Suc t"
      then show "D' ! k ! r = ders_sum kv i u pn k r"
        using new [of k] old [of k r] dn [of k r] by (cases "r = t") simp_all
    next
      fix r show "D' ! 0 ! r = ders0 ! 0 ! r" using old [of 0 r] row0 [of r] by simp
    qed
    then show "\<exists>s'. (case st of (ders, a) \<Rightarrow>
             ebind (py_set2 a 0 0 1) (\<lambda>a.
             ebind (for_loop (py_range 1 (1 + int n)) (ders_round (int pn) ndu (0 + int t)) (ders, a, 0, 1))
               (\<lambda>(ders, a, s1, s2). Inr (ders, a)))) = Inr s' \<and> R (Suc t) s'"
      using set loop by (simp add: st)
  qed
  then obtain st where st: "for_loop (py_range 0 (0 + int (Suc pn)))
          (\<lambda>r (ders, a).
             ebind (py_set2 a 0 0 1) (\<lambda>a.
             ebind (for_loop (py_range 1 (1 + int n)) (ders_round (int pn) ndu r) (ders, a, 0, 1))
               (\<lambda>(ders, a, s1, s2). Inr (ders, a))))
          (ders0, replicate 2 (replicate (Suc pn) 0)) = Inr st" and R: "R (Suc pn) st" by blast
  obtain D A where DA: "st = (D, A)" by (cases st)
  have "ders_table (int pn) (int n) ndu ders0 = Inr D"
    unfolding ders_table_def r1 r2 n1 st DA by simp
  then show ?thesis using R unfolding DA R_def by auto
qed

lemma ders_row0_value:
  assumes nd: "ndu_table kv i u pn ndu"
  shows "\<exists>ders. for_loop (py_range 0 (0 + int (Suc pn)))
                   (\<lambda>j ders. ebind (py_get2 ndu j (int pn)) (\<lambda>x. py_set2 ders 0 j x))
                   (replicate (Suc n) (replicate (Suc pn) 0)) = Inr ders
           \<and> shape ders (Suc n) (Suc pn)
           \<and> (\<forall>r. r \<le> pn \<longrightarrow> ders ! 0 ! r = Bf kv i u pn r)"
proof -
  define I where "I = (\<lambda>t (ders :: real list list).
     shape ders (Suc n) (Suc pn) \<and> (\<forall>r. r < t \<longrightarrow> ders ! 0 ! r = Bf kv i u pn r))"
  have "\<exists>ders. for_loop (py_range 0 (0 + int (Suc pn)))
                   (\<lambda>j ders. ebind (py_get2 ndu j (int pn)) (\<lambda>x. py_set2 ders 0 j x))
                   (replicate (Suc n) (replicate (Suc pn) 0)) = Inr ders \<and> I (Suc pn) ders"
  proof (rule for_loop_total)
    show "I 0 (replicate (Suc n) (replicate (Suc pn) 0))"
      using shape_replicate [of "Suc n" "Suc pn" "0::real"] by (simp add: I_def del: replicate_Suc)
  next
    fix t D
    assume t: "t < Suc pn" and It: "I t D"
    then have shD: "shape D (Suc n) (Suc pn)"
      and dn: "\<And>r. r < t \<Longrightarrow> D ! 0 ! r = Bf kv i u pn r" by (simp_all add: I_def)
    have g: "py_get2 ndu (0 + int t) (int pn) = Inr (Bf kv i u pn t)"
      using ndu_table_upper [OF nd, of t pn] t by simp
    define D' where "D' = D[0 := (D ! 0)[t := Bf kv i u pn t]]"
    have set: "py_set2 D 0 (0 + int t) (Bf kv i u pn t) = Inr D'"
      using shape_set2 [OF shD _ t, of 0] by (simp add: D'_def)
    have D'v: "D' ! k' ! r' = (if k' = 0 \<and> r' = t then Bf kv i u pn t else D ! k' ! r')"
      for k' r' unfolding D'_def by (rule shape_nth_update2 [OF shD _ t]) simp
    have "I (Suc t) D'"
      unfolding I_def
    proof (intro conjI allI impI)
      show "shape D' (Suc n) (Suc pn)" unfolding D'_def by (rule shape_update2 [OF shD])
    next
      fix r assume "r < Suc t"
      then show "D' ! 0 ! r = Bf kv i u pn r" using dn [of r] by (cases "r = t") (simp_all add: D'v)
    qed
    then show "\<exists>s'. ebind (py_get2 ndu (0 + int t) (int pn)) (\<lambda>x. py_set2 D 0 (0 + int t) x) = Inr s'
                \<and> I (Suc t) s'"
      unfolding g ebind_simps set by simp
  qed
  then show ?thesis unfolding I_def by auto
qed

lemma ders_scale_row:
  fixes D :: "real list list" and c :: real
  assumes sh: "shape D R (Suc pn)" and k: "k < R"
  shows "\<exists>D'. for_loop (py_range 0 (0 + int (Suc pn)))
                  (\<lambda>j ders. ebind (py_get2 ders (int k) j) (\<lambda>x. py_set2 ders (int k) j (x * c))) D
                = Inr D'
           \<and> shape D' R (Suc pn)
           \<and> (\<forall>r. r \<le> pn \<longrightarrow> D' ! k ! r = D ! k ! r * c)
           \<and> (\<forall>k' r. k' \<noteq> k \<longrightarrow> D' ! k' ! r = D ! k' ! r)"
proof -
  define I where "I = (\<lambda>t (D' :: real list list).
     shape D' R (Suc pn)
     \<and> (\<forall>r. r < t \<longrightarrow> D' ! k ! r = D ! k ! r * c)
     \<and> (\<forall>k' r. \<not> (k' = k \<and> r < t) \<longrightarrow> D' ! k' ! r = D ! k' ! r))"
  have "\<exists>D'. for_loop (py_range 0 (0 + int (Suc pn)))
                  (\<lambda>j ders. ebind (py_get2 ders (int k) j) (\<lambda>x. py_set2 ders (int k) j (x * c))) D
                = Inr D' \<and> I (Suc pn) D'"
  proof (rule for_loop_total)
    show "I 0 D" using sh by (simp add: I_def)
  next
    fix t E
    assume t: "t < Suc pn" and It: "I t E"
    then have shE: "shape E R (Suc pn)"
      and dn: "\<And>r. r < t \<Longrightarrow> E ! k ! r = D ! k ! r * c"
      and rest: "\<And>k' r. \<not> (k' = k \<and> r < t) \<Longrightarrow> E ! k' ! r = D ! k' ! r"
      by (simp_all add: I_def)
    have g: "py_get2 E (int k) (0 + int t) = Inr (D ! k ! t)"
      using shape_get2 [OF shE k t] rest [of k t] by simp
    define E' where "E' = E[k := (E ! k)[t := D ! k ! t * c]]"
    have set: "py_set2 E (int k) (0 + int t) (D ! k ! t * c) = Inr E'"
      using shape_set2 [OF shE k t] by (simp add: E'_def)
    have E'v: "E' ! k' ! r' = (if k' = k \<and> r' = t then D ! k ! t * c else E ! k' ! r')"
      for k' r' unfolding E'_def by (rule shape_nth_update2 [OF shE k t])
    have "I (Suc t) E'"
      unfolding I_def
    proof (intro conjI allI impI)
      show "shape E' R (Suc pn)" unfolding E'_def by (rule shape_update2 [OF shE])
    next
      fix r assume "r < Suc t"
      then show "E' ! k ! r = D ! k ! r * c" using dn [of r] by (cases "r = t") (simp_all add: E'v)
    next
      fix k' r assume "\<not> (k' = k \<and> r < Suc t)"
      then show "E' ! k' ! r = D ! k' ! r" using rest [of k' r] by (auto simp add: E'v)
    qed
    then show "\<exists>s'. ebind (py_get2 E (int k) (0 + int t)) (\<lambda>x. py_set2 E (int k) (0 + int t) (x * c))
                  = Inr s' \<and> I (Suc t) s'"
      unfolding g ebind_simps set by simp
  qed
  then show ?thesis unfolding I_def by auto
qed

lemma ders_scale_value:
  assumes n: "n \<le> pn" and sh: "shape ders0 (Suc n) (Suc pn)"
  shows "\<exists>ders. ders_scale (int pn) (int n) ders0 = Inr ders
           \<and> shape ders (Suc n) (Suc pn)
           \<and> (\<forall>k r. k \<le> n \<and> r \<le> pn \<longrightarrow> ders ! k ! r = ders0 ! k ! r * real_of_int (ff pn k))"
proof -
  define S where "S = (\<lambda>t (st :: real list list \<times> int).
     case st of (ders, rr) \<Rightarrow>
       shape ders (Suc n) (Suc pn) \<and> rr = ff pn (Suc t)
       \<and> (\<forall>k r. k \<le> t \<and> r \<le> pn \<longrightarrow> ders ! k ! r = ders0 ! k ! r * real_of_int (ff pn k))
       \<and> (\<forall>k r. t < k \<longrightarrow> ders ! k ! r = ders0 ! k ! r))"
  have r1: "py_range 0 (int pn + 1) = py_range 0 (0 + int (Suc pn))" by (simp add: add.commute)
  have r2: "py_range 1 (int n + 1) = py_range 1 (1 + int n)" by (simp add: add.commute)
  have "\<exists>st. for_loop (py_range 1 (1 + int n))
          (\<lambda>k (ders, r).
             ebind
               (for_loop (py_range 0 (0 + int (Suc pn)))
                  (\<lambda>j ders. ebind (py_get2 ders k j) (\<lambda>x. py_set2 ders k j (x * real_of_int r)))
                  ders)
               (\<lambda>ders. Inr (ders, r * (int pn - k))))
          (ders0, int pn) = Inr st \<and> S n st"
  proof (rule for_loop_total)
    show "S 0 (ders0, int pn)" using sh by (simp add: S_def)
  next
    fix t st
    assume t: "t < n" and St: "S t st"
    obtain D rr where st: "st = (D, rr)" by (cases st)
    from St have shD: "shape D (Suc n) (Suc pn)" and rr: "rr = ff pn (Suc t)"
      and dn: "\<And>k r. k \<le> t \<Longrightarrow> r \<le> pn \<Longrightarrow> D ! k ! r = ders0 ! k ! r * real_of_int (ff pn k)"
      and rest: "\<And>k r. t < k \<Longrightarrow> D ! k ! r = ders0 ! k ! r"
      by (simp_all add: S_def st)
    have kR: "Suc t < Suc n" using t by simp
    from ders_scale_row [OF shD kR, of "real_of_int rr"]
    obtain D' where
      loop: "for_loop (py_range 0 (0 + int (Suc pn)))
                  (\<lambda>j ders. ebind (py_get2 ders (int (Suc t)) j)
                     (\<lambda>x. py_set2 ders (int (Suc t)) j (x * real_of_int rr))) D = Inr D'"
      and shD': "shape D' (Suc n) (Suc pn)"
      and new: "\<And>r. r \<le> pn \<Longrightarrow> D' ! Suc t ! r = D ! Suc t ! r * real_of_int rr"
      and old: "\<And>k' r. k' \<noteq> Suc t \<Longrightarrow> D' ! k' ! r = D ! k' ! r"
      by blast
    have "S (Suc t) (D', rr * (int pn - int (Suc t)))"
      unfolding S_def
    proof (simp only: prod.case, intro conjI allI impI)
      show "shape D' (Suc n) (Suc pn)" by (rule shD')
      show "rr * (int pn - int (Suc t)) = ff pn (Suc (Suc t))" by (simp add: rr)
    next
      fix k r assume a: "k \<le> Suc t \<and> r \<le> pn"
      show "D' ! k ! r = ders0 ! k ! r * real_of_int (ff pn k)"
      proof (cases "k = Suc t")
        case True
        then show ?thesis using a new [of r] rest [of "Suc t" r] by (simp add: rr)
      next
        case False
        then show ?thesis using a old [of k r] dn [of k r] by simp
      qed
    next
      fix k r assume "Suc t < k"
      then show "D' ! k ! r = ders0 ! k ! r" using old [of k r] rest [of k r] by simp
    qed
    moreover have e: "1 + int t = int (Suc t)" by simp
    ultimately show "\<exists>s'. (case st of (ders, r) \<Rightarrow>
             ebind
               (for_loop (py_range 0 (0 + int (Suc pn)))
                  (\<lambda>j ders. ebind (py_get2 ders (1 + int t) j)
                     (\<lambda>x. py_set2 ders (1 + int t) j (x * real_of_int r)))
                  ders)
               (\<lambda>ders. Inr (ders, r * (int pn - (1 + int t))))) = Inr s' \<and> S (Suc t) s'"
      unfolding st prod.case e loop ebind_simps
      by (intro exI [of _ "(D', rr * (int pn - int (Suc t)))"] conjI refl)
  qed
  then obtain st where st: "for_loop (py_range 1 (1 + int n))
          (\<lambda>k (ders, r).
             ebind
               (for_loop (py_range 0 (0 + int (Suc pn)))
                  (\<lambda>j ders. ebind (py_get2 ders k j) (\<lambda>x. py_set2 ders k j (x * real_of_int r)))
                  ders)
               (\<lambda>ders. Inr (ders, r * (int pn - k))))
          (ders0, int pn) = Inr st" and S: "S n st" by blast
  obtain D rr where Dr: "st = (D, rr)" by (cases st)
  have "ders_scale (int pn) (int n) ders0 = Inr D"
    unfolding ders_scale_def r1 r2 st Dr by simp
  then show ?thesis using S unfolding Dr S_def by auto
qed

lemma basis_functions_ders_value:
  assumes ok: "knots_ok p kv nn" and i: "p \<le> i" "i < nn"
    and span: "kv ! nat i < kv ! nat (i + 1)"
    and n: "0 \<le> n" "n \<le> p"
  shows "\<exists>tab. basis_functions_ders p kv i u n = Inr tab
           \<and> shape tab (Suc (nat n)) (Suc (nat p))
           \<and> (\<forall>k r. k \<le> nat n \<and> r \<le> nat p \<longrightarrow> tab ! k ! r = ders_value kv i u (nat p) k r)"
proof -
  define pn where "pn = nat p"
  define m where "m = nat n"
  have p0: "0 \<le> p" using ok by (simp add: knots_ok_def)
  have p: "p = int pn" and nm: "n = int m" and mp: "m \<le> pn"
    using p0 n by (simp_all add: pn_def m_def)
  have srt: "sorted kv" and lenkv: "int (length kv) = nn + p + 1"
    using ok by (simp_all add: knots_ok_def)
  from ders_ndu_value [OF ok i span, of u] obtain ndu where
    A: "ders_ndu p kv i u = Inr ndu \<and> shape ndu (Suc (nat p)) (Suc (nat p))
           \<and> (\<forall>d r. d \<le> nat p \<and> r \<le> d \<longrightarrow> ndu ! r ! d = Bf kv i u d r)
           \<and> (\<forall>d r. 1 \<le> d \<and> d \<le> nat p \<and> r < d \<longrightarrow> ndu ! d ! r = kd kv i d r)" ..
  have ndu: "ders_ndu p kv i u = Inr ndu" and shn: "shape ndu (Suc pn) (Suc pn)"
    using A by (simp_all add: pn_def)
  have up: "ndu ! r ! d = Bf kv i u d r" if "d \<le> pn" "r \<le> d" for d r
    using A that by (simp add: pn_def)
  have lo: "ndu ! d ! r = kd kv i d r" if "1 \<le> d" "d \<le> pn" "r < d" for d r
    using A that by (simp add: pn_def)
  have nd: "ndu_table kv i u pn ndu"
    unfolding ndu_table_def
  proof (intro conjI allI impI)
    show "shape ndu (Suc pn) (Suc pn)" by (rule shn)
  next
    fix d r assume "d \<le> pn \<and> r \<le> d"
    then show "ndu ! r ! d = Bf kv i u d r" using up by simp
  next
    fix d r assume a: "1 \<le> d \<and> d \<le> pn \<and> r < d"
    then show "ndu ! d ! r = kd kv i d r" using lo by simp
    have "0 < kd kv i d r"
      using srt span i p0 lenkv a by (intro kd_pos) (simp_all add: p)
    then show "kd kv i d r \<noteq> 0" by simp
  qed
  have r1: "py_range 0 (int pn + 1) = py_range 0 (0 + int (Suc pn))" by (simp add: add.commute)
  have n1: "nat (int pn + 1) = Suc pn" "nat (int m + 1) = Suc m" by simp_all
  from ders_row0_value [OF nd, of m] obtain D0 where
    B: "for_loop (py_range 0 (0 + int (Suc pn)))
                   (\<lambda>j ders. ebind (py_get2 ndu j (int pn)) (\<lambda>x. py_set2 ders 0 j x))
                   (replicate (Suc m) (replicate (Suc pn) 0)) = Inr D0
           \<and> shape D0 (Suc m) (Suc pn)
           \<and> (\<forall>r. r \<le> pn \<longrightarrow> D0 ! 0 ! r = Bf kv i u pn r)" ..
  then have row0: "for_loop (py_range 0 (0 + int (Suc pn)))
                   (\<lambda>j ders. ebind (py_get2 ndu j (int pn)) (\<lambda>x. py_set2 ders 0 j x))
                   (replicate (Suc m) (replicate (Suc pn) 0)) = Inr D0"
    and sh0: "shape D0 (Suc m) (Suc pn)"
    and v0: "\<And>r. r \<le> pn \<Longrightarrow> D0 ! 0 ! r = Bf kv i u pn r" by simp_all
  from ders_table_value [OF nd mp sh0] obtain D1 where
    C: "ders_table (int pn) (int m) ndu D0 = Inr D1
           \<and> shape D1 (Suc m) (Suc pn)
           \<and> (\<forall>k r. 1 \<le> k \<and> k \<le> m \<and> r \<le> pn \<longrightarrow> D1 ! k ! r = ders_sum kv i u pn k r)
           \<and> (\<forall>r. D1 ! 0 ! r = D0 ! 0 ! r)" ..
  then have tab: "ders_table (int pn) (int m) ndu D0 = Inr D1"
    and sh1: "shape D1 (Suc m) (Suc pn)"
    and v1: "\<And>k r. 1 \<le> k \<Longrightarrow> k \<le> m \<Longrightarrow> r \<le> pn \<Longrightarrow> D1 ! k ! r = ders_sum kv i u pn k r"
    and v10: "\<And>r. D1 ! 0 ! r = D0 ! 0 ! r" by simp_all
  from ders_scale_value [OF mp sh1] obtain D2 where
    E: "ders_scale (int pn) (int m) D1 = Inr D2
           \<and> shape D2 (Suc m) (Suc pn)
           \<and> (\<forall>k r. k \<le> m \<and> r \<le> pn \<longrightarrow> D2 ! k ! r = D1 ! k ! r * real_of_int (ff pn k))" ..
  then have sc: "ders_scale (int pn) (int m) D1 = Inr D2"
    and sh2: "shape D2 (Suc m) (Suc pn)"
    and v2: "\<And>k r. k \<le> m \<Longrightarrow> r \<le> pn \<Longrightarrow> D2 ! k ! r = D1 ! k ! r * real_of_int (ff pn k)"
    by simp_all
  have res: "basis_functions_ders p kv i u n = Inr D2"
  proof -
    have ndu': "ders_ndu (int pn) kv i u = Inr ndu" using ndu by (simp only: p)
    show ?thesis
      unfolding basis_functions_ders_def p nm r1 n1
      by (simp only: ndu' ebind_simps row0 tab sc)
  qed
  have "D2 ! k ! r = ders_value kv i u pn k r" if "k \<le> m" "r \<le> pn" for k r
  proof (cases "k = 0")
    case True
    then show ?thesis using that v2 [of 0 r] v10 [of r] v0 [of r] by (simp add: ders_value_def)
  next
    case False
    then show ?thesis using that v2 [of k r] v1 [of k r]
      by (simp add: ders_value_def ders_sum_def)
  qed
  then show ?thesis using res sh2 unfolding pn_def m_def by blast
qed

section \<open>Both derivative methods beyond the degree\<close>

lemma basis_functions_ders_total:
  assumes ok: "knots_ok p kv nn" and i: "p \<le> i" "i < nn"
    and span: "kv ! nat i < kv ! nat (i + 1)"
  shows "\<exists>tab. basis_functions_ders p kv i u p = Inr tab
           \<and> length tab = nat (p + 1)
           \<and> (\<forall>row \<in> set tab. length row = nat (p + 1))"
proof -
  have p0: "0 \<le> p" using ok by (simp add: knots_ok_def)
  from basis_functions_ders_value [OF ok i span p0 order_refl, of u] obtain tab where
    A: "basis_functions_ders p kv i u p = Inr tab
           \<and> shape tab (Suc (nat p)) (Suc (nat p))
           \<and> (\<forall>k r. k \<le> nat p \<and> r \<le> nat p \<longrightarrow> tab ! k ! r = ders_value kv i u (nat p) k r)" ..
  then have sh: "shape tab (Suc (nat p)) (Suc (nat p))" by simp
  have n: "nat (p + 1) = Suc (nat p)" using p0 by (simp add: nat_add_distrib)
  have "length row = Suc (nat p)" if "row \<in> set tab" for row
  proof -
    from that obtain t where "t < length tab" "row = tab ! t" by (auto simp add: in_set_conv_nth)
    then show ?thesis using sh by (simp add: shape_def)
  qed
  then show ?thesis using A sh unfolding n by (auto simp add: shape_def)
qed

text \<open>
  Claim C9, as stated: on every valid curve and for every \<open>u\<close> in \<open>[0,1]\<close>, both
  derivative methods return a list when the order is above the degree. On the curve
  with the knot vector \<open>[0, 1/10, 1/5, 1/2, 7/10, 9/10, 1]\<close> no span holds \<open>u = 1/10\<close>
  and both \<^verbatim>\<open>derivatives(1/10, 3)\<close> and \<^verbatim>\<open>derivatives2(1/10, 3)\<close> raise
  \<^verbatim>\<open>IndexError\<close>; on the curve with the knot vector \<open>[0, 0, 0, 1, 1, 1, 1]\<close> the span
  found for \<open>u = 1\<close> is empty and both raise \<^verbatim>\<open>ZeroDivisionError\<close>.
\<close>

theorem derivatives_need_domain:
  "valid_curve unclamped_curve \<and> degree unclamped_curve < 3
   \<and> \<not> in_domain (degree unclamped_curve) (knot_vector unclamped_curve)
         (int (length (control_points unclamped_curve))) (1/10)
   \<and> derivatives unclamped_curve (1/10) 3 = Inl IndexError
   \<and> derivatives2 unclamped_curve (1/10) 3 = Inl IndexError
   \<and> valid_curve overclamped_curve \<and> degree overclamped_curve < 3
   \<and> \<not> in_domain (degree overclamped_curve) (knot_vector overclamped_curve)
         (int (length (control_points overclamped_curve))) 1
   \<and> derivatives overclamped_curve 1 3 = Inl ZeroDivisionError
   \<and> derivatives2 overclamped_curve 1 3 = Inl ZeroDivisionError"
proof -
  have "valid_curve unclamped_curve" by code_simp
  moreover have "degree unclamped_curve < 3" by code_simp
  moreover have "\<not> in_domain (degree unclamped_curve) (knot_vector unclamped_curve)
         (int (length (control_points unclamped_curve))) (1/10)" by code_simp
  moreover have "derivatives unclamped_curve (1/10) 3 = Inl IndexError" by code_simp
  moreover have "derivatives2 unclamped_curve (1/10) 3 = Inl IndexError" by code_simp
  moreover have "valid_curve overclamped_curve" by code_simp
  moreover have "degree overclamped_curve < 3" by code_simp
  moreover have "\<not> in_domain (degree overclamped_curve) (knot_vector overclamped_curve)
         (int (length (control_points overclamped_curve))) 1" by code_simp
  moreover have "derivatives overclamped_curve 1 3 = Inl ZeroDivisionError" by code_simp
  moreover have "derivatives2 overclamped_curve 1 3 = Inl ZeroDivisionError" by code_simp
  ultimately show ?thesis by blast
qed

text \<open>
  Claim C9, amended: on a valid curve, at a parameter \<open>u\<close> of \<open>[0,1]\<close> in the domain of
  the knot vector (\<open>kv[p] \<le> u < kv[n]\<close>, or \<open>u = 1\<close> with \<open>kv[n-1] < kv[n]\<close>; all of \<open>[0,1]\<close>
  when the knot vector is clamped) and for an order above the degree, both
  \<^verbatim>\<open>derivatives(u, order)\<close> and \<^verbatim>\<open>derivatives2(u, order)\<close> return a list of
  \<open>order + 1\<close> vectors whose entries at the indices \<open>degree < k \<le> order\<close> are the zero
  vector of the curve's dimension.
\<close>

theorem derivatives_beyond_degree:
  assumes "valid_curve c"
    and "in_domain (degree c) (knot_vector c) (int (length (control_points c))) u"
    and "0 \<le> u" and "u \<le> 1" and "degree c < order"
  shows "(\<exists>CK. derivatives c u order = Inr CK \<and> length CK = nat (order + 1)
            \<and> (\<forall>t. nat (degree c) < t \<and> t < nat (order + 1)
                  \<longrightarrow> CK ! t = replicate (nat (dimension c)) (Some 0)))
       \<and> (\<exists>CK. derivatives2 c u order = Inr CK \<and> length CK = nat (order + 1)
            \<and> (\<forall>t. nat (degree c) < t \<and> t < nat (order + 1)
                  \<longrightarrow> CK ! t = replicate (nat (dimension c)) (Some 0)))"
proof
  show "\<exists>CK. derivatives c u order = Inr CK \<and> length CK = nat (order + 1)
            \<and> (\<forall>t. nat (degree c) < t \<and> t < nat (order + 1)
                  \<longrightarrow> CK ! t = replicate (nat (dimension c)) (Some 0))"
    using assms by (rule derivatives_high_order)
next
  have ok: "knots_ok (degree c) (knot_vector c) (int (length (control_points c)))"
    using assms(1) by (simp add: valid_curve_def)
  show "\<exists>CK. derivatives2 c u order = Inr CK \<and> length CK = nat (order + 1)
            \<and> (\<forall>t. nat (degree c) < t \<and> t < nat (order + 1)
                  \<longrightarrow> CK ! t = replicate (nat (dimension c)) (Some 0))"
    using assms
  proof (rule derivatives2_high_order)
    fix k
    assume "find_span (degree c) (knot_vector c) (int (length (control_points c))) u = Inr k"
    moreover from find_span_total [OF ok assms(2)] obtain k' where
      "find_span (degree c) (knot_vector c) (int (length (control_points c))) u = Inr k'"
      "degree c \<le> k'" "k' < int (length (control_points c))"
      "knot_vector c ! nat k' < knot_vector c ! nat (k' + 1)" by auto
    ultimately have "degree c \<le> k" "k < int (length (control_points c))"
      "knot_vector c ! nat k < knot_vector c ! nat (k + 1)" by simp_all
    then show "\<exists>tab. basis_functions_ders (degree c) (knot_vector c) k u (degree c) = Inr tab
              \<and> length tab = nat (degree c + 1)
              \<and> (\<forall>row \<in> set tab. length row = nat (degree c + 1))"
      by (rule basis_functions_ders_total [OF ok])
  qed
qed

theorem derivatives_beyond_degree_witness:
  "valid_curve scenario_curve
   \<and> in_domain (degree scenario_curve) (knot_vector scenario_curve)
       (int (length (control_points scenario_curve))) (1/4)
   \<and> degree scenario_curve < 4
   \<and> (\<exists>CK. derivatives scenario_curve (1/4) 4 = Inr CK \<and> length CK = 5
         \<and> CK ! 3 = [Some 0, Some 0] \<and> CK ! 4 = [Some 0, Some 0])
   \<and> (\<exists>CK. derivatives2 scenario_curve (1/4) 4 = Inr CK \<and> length CK = 5
         \<and> CK ! 3 = [Some 0, Some 0] \<and> CK ! 4 = [Some 0, Some 0])"
proof -
  have h1: "valid_curve scenario_curve" by code_simp
  have h2: "in_domain (degree scenario_curve) (knot_vector scenario_curve)
       (int (length (control_points scenario_curve))) (1/4)" by code_simp
  have h3: "degree scenario_curve < 4" by code_simp
  have h6: "degree scenario_curve = 2" "dimension scenario_curve = 2"
    by (simp_all add: scenario_curve_def)
  have e: "replicate (nat 2) (Some (0::real)) = [Some 0, Some 0]"
    by (simp add: numeral_2_eq_2)
  note t = derivatives_beyond_degree [OF h1 h2 _ _ h3, unfolded h6 e]
  have t1: "\<exists>CK. derivatives scenario_curve (1/4) 4 = Inr CK \<and> length CK = nat (4 + 1)
            \<and> (\<forall>t. nat 2 < t \<and> t < nat (4 + 1) \<longrightarrow> CK ! t = [Some 0, Some 0])"
    using t by simp
  have t2: "\<exists>CK. derivatives2 scenario_curve (1/4) 4 = Inr CK \<and> length CK = nat (4 + 1)
            \<and> (\<forall>t. nat 2 < t \<and> t < nat (4 + 1) \<longrightarrow> CK ! t = [Some 0, Some 0])"
    using t by simp
  from t1 obtain CK where a: "derivatives scenario_curve (1/4) 4 = Inr CK" "length CK = 5"
    "\<And>t. 2 < t \<Longrightarrow> t < 5 \<Longrightarrow> CK ! t = [Some 0, Some 0]" by auto
  from t2 obtain CK2 where b: "derivatives2 scenario_curve (1/4) 4 = Inr CK2" "length CK2 = 5"
    "\<And>t. 2 < t \<Longrightarrow> t < 5 \<Longrightarrow> CK2 ! t = [Some 0, Some 0]" by auto
  have "CK ! 3 = [Some 0, Some 0]" "CK ! 4 = [Some 0, Some 0]"
    "CK2 ! 3 = [Some 0, Some 0]" "CK2 ! 4 = [Some 0, Some 0]"
    using a(3) [of 3] a(3) [of 4] b(3) [of 3] b(3) [of 4] by simp_all
  then show ?thesis using h1 h2 h3 a(1,2) b(1,2) by simp
qed

section \<open>The two derivative methods compared\<close>


declare Bf.simps(2) [simp del]




















end
